theory Spec2Isabelle
  imports Main
begin

section \<open>Data model\<close>

text \<open>
  The presentation is driven by three cooperating JavaScript objects: the application
  controller \<open>ACEPresentation\<close> (main.js), the \<open>PresentationController\<close> with its static
  flow steps, and the \<open>DemoController\<close> (demo-mode.js). They share the browser's timer
  service and the \<open>sectionChanged\<close> window event. The three objects, the timer service and
  a trace of the observable effects form one state record; every method becomes a function
  on that state.

  The page is taken to be loaded: \<open>window.acePresentation\<close> exists and has created and
  initialised its controllers, whose listeners are registered in the order of
  \<open>initializeComponents\<close> and \<open>setupEventListeners\<close>. Page content (the DOM, the 3D scene, the
  dialogs and the cosmetic timers some effects start for it) is not part of the state; of
  the calls into it only the one that cannot succeed, \<open>window.dataManager.getProblems()\<close>,
  is modelled as throwing.
\<close>

text \<open>
  One entry of a flow step's \<open>actions\<close> array: \<open>{ type, target }\<close> or \<open>{ type, delay }\<close>.
  \<open>target\<close> is read by \<open>showSection\<close> only and is the empty string where the source leaves
  it out; an absent \<open>delay\<close> is \<open>None\<close>.
\<close>

record action =
  a_type :: string
  a_target :: string
  a_delay :: "nat option"

record flow_step =
  fs_section :: string
  fs_title :: string
  fs_duration :: nat
  fs_actions :: "action list"
  fs_presenterNotes :: string

text \<open>The \<open>presentationState\<close> object of the PresentationController.\<close>

record presentation_state =
  isPlaying :: bool
  isPaused :: bool
  startTime :: "int option"
  currentTime :: int
  totalDuration :: nat

text \<open>What a pending \<open>setTimeout\<close> will call when it fires.\<close>

datatype callback =
    FlowAction action       \<comment> \<open>\<open>() => this.executeAction(action)\<close> of executeFlowStep\<close>
  | AutoAdvance             \<comment> \<open>\<open>() => this.nextStep()\<close> of executeFlowStep\<close>
  | DemoNextStep            \<comment> \<open>\<open>() => this.nextStep()\<close> of DemoController.executeStep\<close>
  | DemoNavigate string     \<comment> \<open>the 500 ms \<open>navigateToSection\<close> inside two demo actions\<close>

record timer =
  tid :: nat
  due :: nat
  cb :: callback

text \<open>Observable effects, in the order in which they happen.\<close>

datatype event =
    SectionChanged string string  \<comment> \<open>\<open>detail.sectionId\<close>, \<open>detail.previousSection\<close>\<close>
  | Effect string                 \<comment> \<open>the body of the named flow action ran\<close>
  | Raised string                 \<comment> \<open>the body of the named flow action threw\<close>
  | Warned string                 \<comment> \<open>\<open>console.warn\<close> for an unknown action type\<close>
  | DemoAction nat                \<comment> \<open>the action of the demo step with this index ran\<close>

record state =
  ace_currentSection :: string
  pc_currentSection :: string
  pc_currentStep :: nat
  autoAdvance :: bool
  presentationState :: presentation_state
  demo_isRunning :: bool
  demo_isPaused :: bool
  demo_currentStep :: nat
  stepTimeout :: "nat option"
  now :: nat
  nextTimer :: nat
  timers :: "timer list"
  fired :: "nat list"
  trace :: "event list"

text \<open>
  A method either returns or throws; both leave a state behind. \<open>None\<close> around a result
  means that the nesting budget of event dispatches ran out (see \<open>navigateToSection\<close>).
\<close>

datatype outcome = Normal state | Throw state

section \<open>The timer service\<close>

text \<open>
  \<open>setTimeout(cb, ms)\<close> registers a single-shot timer and returns its handle; handles are
  never reused. \<open>clearTimeout\<close> removes the timer with that handle and ignores a handle
  that is no longer pending.
\<close>

definition setTimeout :: "callback \<Rightarrow> nat \<Rightarrow> state \<Rightarrow> nat \<times> state" where
  "setTimeout c ms st =
     (nextTimer st,
      st\<lparr>timers := timers st @ [\<lparr>tid = nextTimer st, due = now st + ms, cb = c\<rparr>],
         nextTimer := Suc (nextTimer st)\<rparr>)"

definition clearTimeout :: "nat \<Rightarrow> state \<Rightarrow> state" where
  "clearTimeout h st = st\<lparr>timers := filter (\<lambda>t. tid t \<noteq> h) (timers st)\<rparr>"

text \<open>The pending timer that fires next: the earliest due, the first registered among equals.\<close>

fun earliest :: "timer list \<Rightarrow> timer option" where
  "earliest [] = None"
| "earliest (t # ts) =
     (case earliest ts of
        None \<Rightarrow> Some t
      | Some u \<Rightarrow> if due u < due t then Some u else Some t)"

definition logEvent :: "event \<Rightarrow> state \<Rightarrow> state" where
  "logEvent e st = st\<lparr>trace := trace st @ [e]\<rparr>"

section \<open>PresentationController: static flow and state\<close>

text \<open>The array that \<open>setupPresentationFlow\<close> assigns to \<open>this.flowSteps\<close>; nothing reassigns it.\<close>

definition flowSteps :: "flow_step list" where
  "flowSteps =
   [\<lparr>fs_section = ''chaos'', fs_title = ''The Current State - Chaos'', fs_duration = 60000,
     fs_actions =
      [\<lparr>a_type = ''showSection'', a_target = ''chaos'', a_delay = None\<rparr>,
       \<lparr>a_type = ''highlight3DPapers'', a_target = [], a_delay = Some 2000\<rparr>,
       \<lparr>a_type = ''showProblemCount'', a_target = [], a_delay = Some 4000\<rparr>,
       \<lparr>a_type = ''emphasizeCosts'', a_target = [], a_delay = Some 6000\<rparr>],
     fs_presenterNotes = ''Introduce the current chaotic state. Point out the scattered papers representing problems. Emphasize financial impact.''\<rparr>,
    \<lparr>fs_section = ''valet'', fs_title = ''The Valet - Firefighter Response'', fs_duration = 90000,
     fs_actions =
      [\<lparr>a_type = ''showSection'', a_target = ''valet'', a_delay = None\<rparr>,
       \<lparr>a_type = ''showFirefighter'', a_target = [], a_delay = Some 2000\<rparr>,
       \<lparr>a_type = ''demonstrateProblemSolving'', a_target = [], a_delay = Some 4000\<rparr>,
       \<lparr>a_type = ''showTrainingSolutions'', a_target = [], a_delay = Some 6000\<rparr>,
       \<lparr>a_type = ''animatePaperToBinder'', a_target = [], a_delay = Some 8000\<rparr>],
     fs_presenterNotes = ''Explain the valet as a firefighter. Show how problems are addressed reactively. Introduce systematic solutions.''\<rparr>,
    \<lparr>fs_section = ''manager'', fs_title = ''The Manager - Watchtower Oversight'', fs_duration = 90000,
     fs_actions =
      [\<lparr>a_type = ''showSection'', a_target = ''manager'', a_delay = None\<rparr>,
       \<lparr>a_type = ''showWatchtower'', a_target = [], a_delay = Some 2000\<rparr>,
       \<lparr>a_type = ''openBinder'', a_target = [], a_delay = Some 4000\<rparr>,
       \<lparr>a_type = ''showProcesses'', a_target = [], a_delay = Some 6000\<rparr>,
       \<lparr>a_type = ''demonstrateOversight'', a_target = [], a_delay = Some 8000\<rparr>],
     fs_presenterNotes = ''Introduce the manager as watchtower. Show systematic oversight. Demonstrate process organization.''\<rparr>,
    \<lparr>fs_section = ''executive'', fs_title = ''The Executive - Strategic Overview'', fs_duration = 120000,
     fs_actions =
      [\<lparr>a_type = ''showSection'', a_target = ''executive'', a_delay = None\<rparr>,
       \<lparr>a_type = ''showPlane'', a_target = [], a_delay = Some 2000\<rparr>,
       \<lparr>a_type = ''displayKPIs'', a_target = [], a_delay = Some 4000\<rparr>,
       \<lparr>a_type = ''showROICalculator'', a_target = [], a_delay = Some 6000\<rparr>,
       \<lparr>a_type = ''demonstrateROI'', a_target = [], a_delay = Some 8000\<rparr>,
       \<lparr>a_type = ''showPredictiveAnalytics'', a_target = [], a_delay = Some 10000\<rparr>],
     fs_presenterNotes = ''Present executive view as fire-spotter plane. Show KPIs and ROI. Demonstrate predictive capabilities.''\<rparr>,
    \<lparr>fs_section = ''closing'', fs_title = ''The Path Forward - Call to Action'', fs_duration = 60000,
     fs_actions =
      [\<lparr>a_type = ''showSection'', a_target = ''closing'', a_delay = None\<rparr>,
       \<lparr>a_type = ''showTransformation'', a_target = [], a_delay = Some 2000\<rparr>,
       \<lparr>a_type = ''highlightPilotProgram'', a_target = [], a_delay = Some 4000\<rparr>,
       \<lparr>a_type = ''showNextSteps'', a_target = [], a_delay = Some 6000\<rparr>,
       \<lparr>a_type = ''emphasizeCTA'', a_target = [], a_delay = Some 8000\<rparr>],
     fs_presenterNotes = ''Summarize transformation. Highlight pilot program. Strong call to action.''\<rparr>]"

text \<open>
  The state the three constructors leave behind, at wall-clock time \<open>t0\<close>. Timer handles
  start at 1, as in a browser.
\<close>

definition constructed :: "nat \<Rightarrow> state" where
  "constructed t0 =
     \<lparr>ace_currentSection = ''chaos'',
      pc_currentSection = ''chaos'',
      pc_currentStep = 0,
      autoAdvance = False,
      presentationState =
        \<lparr>isPlaying = False, isPaused = False, startTime = None, currentTime = 0,
         totalDuration = 420000\<rparr>,
      demo_isRunning = False,
      demo_isPaused = False,
      demo_currentStep = 0,
      stepTimeout = None,
      now = t0,
      nextTimer = 1,
      timers = [],
      fired = [],
      trace = []\<rparr>"

text \<open>\<open>setupPresentationState\<close>: a fresh state object whose total is the sum of the step durations.\<close>

definition setupPresentationState :: "state \<Rightarrow> state" where
  "setupPresentationState st =
     st\<lparr>presentationState :=
          \<lparr>isPlaying = False, isPaused = False, startTime = None, currentTime = 0,
           totalDuration = foldl (\<lambda>total step. total + fs_duration step) 0 flowSteps\<rparr>\<rparr>"

text \<open>\<open>PresentationController.init\<close>; the flow itself is the constant \<open>flowSteps\<close>.\<close>

definition init :: "state \<Rightarrow> state" where
  "init st = setupPresentationState st"

text \<open>\<open>Array.prototype.findIndex\<close> and \<open>indexOf\<close>, with \<open>-1\<close> for "not found".\<close>

fun findIndex :: "('a \<Rightarrow> bool) \<Rightarrow> 'a list \<Rightarrow> int" where
  "findIndex p [] = -1"
| "findIndex p (x # xs) =
     (if p x then 0 else (let i = findIndex p xs in if i = -1 then -1 else i + 1))"

definition indexOf :: "'a list \<Rightarrow> 'a \<Rightarrow> int" where
  "indexOf xs x = findIndex (\<lambda>y. y = x) xs"

text \<open>Reading an array element: \<open>undefined\<close> outside the array is \<open>None\<close>.\<close>

definition element :: "'a list \<Rightarrow> int \<Rightarrow> 'a option" where
  "element xs i = (if 0 \<le> i \<and> i < int (length xs) then Some (xs ! nat i) else None)"

text \<open>
  \<open>updatePresentationState\<close>: the elapsed time is \<open>Date.now() - startTime\<close> when \<open>startTime\<close>
  is truthy (\<open>elapsedSince\<close>) and 0 otherwise. The progress bar and the time display are page
  content and are not tracked.
\<close>

definition elapsedSince :: "int option \<Rightarrow> nat \<Rightarrow> int" where
  "elapsedSince start t =
     (case start of None \<Rightarrow> 0 | Some s \<Rightarrow> if s \<noteq> 0 then int t - s else 0)"

definition updatePresentationState :: "state \<Rightarrow> state" where
  "updatePresentationState st =
     (let ps = presentationState st
      in st\<lparr>presentationState := ps\<lparr>currentTime := elapsedSince (startTime ps) (now st)\<rparr>\<rparr>)"

section \<open>Flow Step Scheduler and Section State Machine\<close>

text \<open>
  The PresentationController reaches the application controller through the global
  \<open>window.acePresentation\<close>, and the application controller reaches the
  PresentationController through the \<open>sectionChanged\<close> event. The methods of the
  PresentationController therefore take the navigation function as the parameter \<open>nav\<close>;
  \<open>navigateToSection\<close> below closes the loop.
\<close>

text \<open>The action types of \<open>executeAction\<close>'s switch other than \<open>showSection\<close>.\<close>

definition knownActions :: "string list" where
  "knownActions =
     [''highlight3DPapers'', ''showProblemCount'', ''emphasizeCosts'', ''showFirefighter'',
      ''demonstrateProblemSolving'', ''showTrainingSolutions'', ''animatePaperToBinder'',
      ''showWatchtower'', ''openBinder'', ''showProcesses'', ''demonstrateOversight'',
      ''showPlane'', ''displayKPIs'', ''showROICalculator'', ''demonstrateROI'',
      ''showPredictiveAnalytics'', ''showTransformation'', ''highlightPilotProgram'',
      ''showNextSteps'', ''emphasizeCTA'']"

text \<open>\<open>PresentationController.showSection\<close>: forwards to \<open>window.acePresentation\<close>.\<close>

definition pc_showSection :: "(string \<Rightarrow> state \<Rightarrow> state option) \<Rightarrow> string \<Rightarrow> state \<Rightarrow> state option" where
  "pc_showSection nav sectionId st = nav sectionId st"

text \<open>
  \<open>executeAction\<close>: the switch on \<open>action.type\<close>. Apart from \<open>showSection\<close> the bodies touch
  page content or dispatch cosmetic events, recorded as \<open>Effect\<close>. \<open>showProblemCount\<close>
  starts with \<open>window.dataManager.getProblems()\<close>, a method the DataManager does not have,
  so it throws a TypeError before it does anything. The default branch warns.
\<close>

definition executeAction :: "(string \<Rightarrow> state \<Rightarrow> state option) \<Rightarrow> action \<Rightarrow> state \<Rightarrow> outcome option" where
  "executeAction nav a st =
     (if a_type a = ''showSection'' then
        (case pc_showSection nav (a_target a) st of
           None \<Rightarrow> None
         | Some st' \<Rightarrow> Some (Normal st'))
      else if a_type a = ''showProblemCount'' then
        Some (Throw (logEvent (Raised (a_type a)) st))
      else if a_type a \<in> set knownActions then
        Some (Normal (logEvent (Effect (a_type a)) st))
      else Some (Normal (logEvent (Warned (a_type a)) st)))"

text \<open>
  The \<open>forEach\<close> of \<open>executeFlowStep\<close>: a truthy \<open>delay\<close> (present and not 0) registers a
  timer whose handle is dropped, anything else runs the action at once. There is no \<open>try\<close> around the call, so
  a throw ends the loop.
\<close>

definition truthy :: "nat option \<Rightarrow> bool" where
  "truthy v = (case v of None \<Rightarrow> False | Some n \<Rightarrow> n \<noteq> 0)"

fun forEachAction :: "(string \<Rightarrow> state \<Rightarrow> state option) \<Rightarrow> action list \<Rightarrow> state \<Rightarrow> outcome option" where
  "forEachAction nav [] st = Some (Normal st)"
| "forEachAction nav (a # as) st =
     (if truthy (a_delay a) then
        forEachAction nav as (snd (setTimeout (FlowAction a) (the (a_delay a)) st))
      else
        (case executeAction nav a st of
           None \<Rightarrow> None
         | Some (Throw st') \<Rightarrow> Some (Throw st')
         | Some (Normal st') \<Rightarrow> forEachAction nav as st'))"

text \<open>
  \<open>executeFlowStep\<close>: the actions, then (the presenter notes, page content, and) the
  auto-advance timer when \<open>this.autoAdvance\<close> is set; its handle is dropped too.
\<close>

definition executeFlowStep :: "(string \<Rightarrow> state \<Rightarrow> state option) \<Rightarrow> flow_step \<Rightarrow> state \<Rightarrow> outcome option" where
  "executeFlowStep nav step st =
     (case forEachAction nav (fs_actions step) st of
        None \<Rightarrow> None
      | Some (Throw st') \<Rightarrow> Some (Throw st')
      | Some (Normal st') \<Rightarrow>
          Some (Normal (if autoAdvance st'
                        then snd (setTimeout AutoAdvance (fs_duration step) st')
                        else st')))"

text \<open>
  \<open>PresentationController.handleSectionChange\<close>, the listener for \<open>sectionChanged\<close>. An
  exception that leaves a listener is reported by the browser and goes no further, so the
  listener ends in the state of the throw.
\<close>

definition pc_handleSectionChange :: "(string \<Rightarrow> state \<Rightarrow> state option) \<Rightarrow> string \<Rightarrow> state \<Rightarrow> state option" where
  "pc_handleSectionChange nav sectionId st =
     (let st1 = st\<lparr>pc_currentSection := sectionId\<rparr>;
          stepIndex = findIndex (\<lambda>step. fs_section step = sectionId) flowSteps
      in if stepIndex \<noteq> -1 then
           (case executeFlowStep nav (flowSteps ! nat stepIndex)
                   (st1\<lparr>pc_currentStep := nat stepIndex\<rparr>) of
              None \<Rightarrow> None
            | Some (Throw st') \<Rightarrow> Some st'
            | Some (Normal st') \<Rightarrow> Some (updatePresentationState st'))
         else Some (updatePresentationState st1))"

text \<open>
  \<open>ACEPresentation.navigateToSection\<close>. After the guard it stores the new section, updates
  the page, the scene and the notes (not tracked), and dispatches \<open>sectionChanged\<close> with
  \<open>previousSection: this.currentSection\<close>, read after the store. The dispatch runs the
  listeners in the order of their registration: those of the UIController and the
  AnimationController change page content only; then the PresentationController's, then
  the application controller's own \<open>handleSectionChange\<close>, which calls
  \<open>navigateToSection\<close> again. The first argument bounds how deep dispatches may nest.
\<close>

primrec navigateToSection :: "nat \<Rightarrow> string \<Rightarrow> state \<Rightarrow> state option" where
  "navigateToSection 0 =
     (\<lambda>sectionId st. if ace_currentSection st = sectionId then Some st else None)"
| "navigateToSection (Suc d) =
     (\<lambda>sectionId st.
        if ace_currentSection st = sectionId then Some st
        else
          (let st1 = st\<lparr>ace_currentSection := sectionId\<rparr>;
               st2 = logEvent (SectionChanged sectionId (ace_currentSection st1)) st1
           in case pc_handleSectionChange (navigateToSection d) sectionId st2 of
                None \<Rightarrow> None
              | Some st3 \<Rightarrow> navigateToSection d sectionId st3))"

text \<open>\<open>ACEPresentation.nextSection\<close> and \<open>previousSection\<close>; the operands of \<open>%\<close> are not negative.\<close>

definition sections :: "string list" where
  "sections = [''chaos'', ''valet'', ''manager'', ''executive'', ''closing'']"

definition nextSection :: "nat \<Rightarrow> state \<Rightarrow> state option" where
  "nextSection d st =
     (let currentIndex = indexOf sections (ace_currentSection st);
          nextIndex = (currentIndex + 1) mod int (length sections)
      in navigateToSection d (sections ! nat nextIndex) st)"

definition previousSection :: "nat \<Rightarrow> state \<Rightarrow> state option" where
  "previousSection d st =
     (let currentIndex = indexOf sections (ace_currentSection st);
          prevIndex = (currentIndex - 1 + int (length sections)) mod int (length sections)
      in navigateToSection d (sections ! nat prevIndex) st)"

text \<open>The step and playback methods of the PresentationController.\<close>

definition pc_nextStep :: "(string \<Rightarrow> state \<Rightarrow> state option) \<Rightarrow> state \<Rightarrow> state option" where
  "pc_nextStep nav st =
     (if int (pc_currentStep st) < int (length flowSteps) - 1 then
        (let st1 = st\<lparr>pc_currentStep := pc_currentStep st + 1\<rparr>
         in pc_showSection nav (fs_section (flowSteps ! pc_currentStep st1)) st1)
      else Some st)"

definition pc_previousStep :: "(string \<Rightarrow> state \<Rightarrow> state option) \<Rightarrow> state \<Rightarrow> state option" where
  "pc_previousStep nav st =
     (if pc_currentStep st > 0 then
        (let st1 = st\<lparr>pc_currentStep := pc_currentStep st - 1\<rparr>
         in pc_showSection nav (fs_section (flowSteps ! pc_currentStep st1)) st1)
      else Some st)"

definition pc_gotoStep :: "(string \<Rightarrow> state \<Rightarrow> state option) \<Rightarrow> int \<Rightarrow> state \<Rightarrow> state option" where
  "pc_gotoStep nav stepIndex st =
     (if stepIndex \<ge> 0 \<and> stepIndex < int (length flowSteps) then
        pc_showSection nav (fs_section (flowSteps ! nat stepIndex))
          (st\<lparr>pc_currentStep := nat stepIndex\<rparr>)
      else Some st)"

definition enableAutoAdvance :: "state \<Rightarrow> state" where
  "enableAutoAdvance st = st\<lparr>autoAdvance := True\<rparr>"

definition disableAutoAdvance :: "state \<Rightarrow> state" where
  "disableAutoAdvance st = st\<lparr>autoAdvance := False\<rparr>"

text \<open>\<open>play\<close>; \<open>this.flowSteps[this.currentStep]\<close> outside the array would make \<open>executeFlowStep\<close> throw.\<close>

definition pc_play :: "(string \<Rightarrow> state \<Rightarrow> state option) \<Rightarrow> state \<Rightarrow> outcome option" where
  "pc_play nav st =
     (let ps = presentationState st
      in if \<not> isPlaying ps then
           (let st1 = st\<lparr>presentationState :=
                          ps\<lparr>isPlaying := True, isPaused := False,
                             startTime := Some (int (now st) - currentTime ps)\<rparr>\<rparr>;
                st2 = enableAutoAdvance st1
            in case element flowSteps (int (pc_currentStep st2)) of
                 None \<Rightarrow> Some (Throw st2)
               | Some step \<Rightarrow> executeFlowStep nav step st2)
         else Some (Normal st))"

definition pc_pause :: "state \<Rightarrow> state" where
  "pc_pause st =
     (if isPlaying (presentationState st) then
        disableAutoAdvance (st\<lparr>presentationState := (presentationState st)\<lparr>isPaused := True\<rparr>\<rparr>)
      else st)"

definition pc_stop :: "state \<Rightarrow> state" where
  "pc_stop st =
     disableAutoAdvance
       (st\<lparr>presentationState :=
            (presentationState st)\<lparr>isPlaying := False, isPaused := False, currentTime := 0\<rparr>\<rparr>)"

definition pc_reset :: "(string \<Rightarrow> state \<Rightarrow> state option) \<Rightarrow> state \<Rightarrow> state option" where
  "pc_reset nav st =
     (let st1 = pc_stop st;
          st2 = st1\<lparr>pc_currentStep := 0\<rparr>
      in pc_showSection nav (fs_section (flowSteps ! 0)) st2)"

definition handleUserInteraction :: "state \<Rightarrow> state" where
  "handleUserInteraction st = (if autoAdvance st then pc_pause st else st)"

section \<open>Demo Automation Driver\<close>

text \<open>
  The closures of \<open>setupDemoSequence\<close>, by what they do to the state: a navigation, a
  click or a style change on page content, closing the dialog and navigating half a
  second later, and the last step's \<open>this.reset()\<close>.
\<close>

datatype demo_action =
    Navigate string
  | PageEffect
  | CloseModalThenNavigate string
  | ResetDemo

record demo_step =
  ds_name :: string
  ds_action :: demo_action
  ds_duration :: nat

definition demoSequence :: "demo_step list" where
  "demoSequence =
     [\<lparr>ds_name = ''Show chaos section'', ds_action = Navigate ''chaos'', ds_duration = 4000\<rparr>,
      \<lparr>ds_name = ''Click a problem paper'', ds_action = PageEffect, ds_duration = 3000\<rparr>,
      \<lparr>ds_name = ''Close modal and transition to valet'',
       ds_action = CloseModalThenNavigate ''valet'', ds_duration = 4000\<rparr>,
      \<lparr>ds_name = ''Transition to manager section'', ds_action = Navigate ''manager'',
       ds_duration = 3000\<rparr>,
      \<lparr>ds_name = ''Open binder'', ds_action = PageEffect, ds_duration = 3000\<rparr>,
      \<lparr>ds_name = ''Transition to executive section'', ds_action = Navigate ''executive'',
       ds_duration = 4000\<rparr>,
      \<lparr>ds_name = ''Click KPI card'', ds_action = PageEffect, ds_duration = 3000\<rparr>,
      \<lparr>ds_name = ''Close modal and transition to closing'',
       ds_action = CloseModalThenNavigate ''closing'', ds_duration = 4000\<rparr>,
      \<lparr>ds_name = ''Highlight launch button'', ds_action = PageEffect, ds_duration = 2000\<rparr>,
      \<lparr>ds_name = ''Reset demo'', ds_action = ResetDemo, ds_duration = 0\<rparr>]"

text \<open>
  \<open>DemoController.stop\<close>. A timer handle is a positive number, so \<open>if (this.stepTimeout)\<close>
  asks whether a handle is stored. The indicator and \<open>resetDemoEffects\<close> are page content.
\<close>

definition demo_stop :: "state \<Rightarrow> state" where
  "demo_stop st =
     (let st1 = st\<lparr>demo_isRunning := False, demo_isPaused := False\<rparr>
      in case stepTimeout st1 of
           Some h \<Rightarrow> (clearTimeout h st1)\<lparr>stepTimeout := None\<rparr>
         | None \<Rightarrow> st1)"

definition demo_pause :: "state \<Rightarrow> state" where
  "demo_pause st =
     (if \<not> demo_isRunning st then st
      else
        (let st1 = st\<lparr>demo_isPaused := True\<rparr>
         in case stepTimeout st1 of
              Some h \<Rightarrow> (clearTimeout h st1)\<lparr>stepTimeout := None\<rparr>
            | None \<Rightarrow> st1))"

text \<open>\<open>DemoController.reset\<close>: back to index 0 and to the chaos section; it does not stop the driver.\<close>

definition demo_reset :: "nat \<Rightarrow> state \<Rightarrow> state option" where
  "demo_reset d st = navigateToSection d ''chaos'' (st\<lparr>demo_currentStep := 0\<rparr>)"

definition runDemoAction :: "nat \<Rightarrow> demo_action \<Rightarrow> state \<Rightarrow> state option" where
  "runDemoAction d act st =
     (case act of
        Navigate s \<Rightarrow> navigateToSection d s st
      | PageEffect \<Rightarrow> Some st
      | CloseModalThenNavigate s \<Rightarrow> Some (snd (setTimeout (DemoNavigate s) 500 st))
      | ResetDemo \<Rightarrow> demo_reset d st)"

text \<open>
  \<open>DemoController.executeStep\<close>: the guard, the step at the current index (\<open>stop()\<close> when
  there is none), the action inside \<open>try\<close>/\<open>catch\<close>, then a new timer for \<open>nextStep\<close>
  whose handle overwrites \<open>this.stepTimeout\<close>.
\<close>

definition demo_executeStep :: "nat \<Rightarrow> state \<Rightarrow> state option" where
  "demo_executeStep d st =
     (if \<not> demo_isRunning st \<or> demo_isPaused st then Some st
      else
        (case element demoSequence (int (demo_currentStep st)) of
           None \<Rightarrow> Some (demo_stop st)
         | Some step \<Rightarrow>
            (case runDemoAction d (ds_action step) (logEvent (DemoAction (demo_currentStep st)) st) of
               None \<Rightarrow> None
             | Some st1 \<Rightarrow>
                 (let (h, st2) = setTimeout DemoNextStep (ds_duration step) st1
                  in Some (st2\<lparr>stepTimeout := Some h\<rparr>)))))"

definition demo_nextStep :: "nat \<Rightarrow> state \<Rightarrow> state option" where
  "demo_nextStep d st =
     (if \<not> demo_isRunning st then Some st
      else
        (let st1 = st\<lparr>demo_currentStep := demo_currentStep st + 1\<rparr>
         in if int (demo_currentStep st1) \<ge> int (length demoSequence) then Some (demo_stop st1)
            else demo_executeStep d st1))"

definition demo_start :: "nat \<Rightarrow> state \<Rightarrow> state option" where
  "demo_start d st =
     (let st1 = (if demo_isRunning st then demo_stop st else st);
          st2 = st1\<lparr>demo_isRunning := True, demo_isPaused := False, demo_currentStep := 0\<rparr>
      in demo_executeStep d st2)"

definition demo_resume :: "nat \<Rightarrow> state \<Rightarrow> state option" where
  "demo_resume d st =
     (if \<not> demo_isRunning st \<or> \<not> demo_isPaused st then Some st
      else demo_executeStep d (st\<lparr>demo_isPaused := False\<rparr>))"

definition demo_skipToStep :: "nat \<Rightarrow> int \<Rightarrow> state \<Rightarrow> state option" where
  "demo_skipToStep d stepIndex st =
     (if \<not> demo_isRunning st \<or> stepIndex < 0 \<or> stepIndex \<ge> int (length demoSequence) then Some st
      else
        (let st1 = (case stepTimeout st of
                      Some h \<Rightarrow> (clearTimeout h st)\<lparr>stepTimeout := None\<rparr>
                    | None \<Rightarrow> st)
         in demo_executeStep d (st1\<lparr>demo_currentStep := nat stepIndex\<rparr>)))"

section \<open>Running the system\<close>

text \<open>
  One timer fires: the clock moves to its due time if that is still ahead, the timer
  leaves the service and its callback runs. An exception that leaves a timer callback is
  reported by the browser and goes no further.
\<close>

definition fire :: "nat \<Rightarrow> state \<Rightarrow> state option" where
  "fire d st =
     (case earliest (timers st) of
        None \<Rightarrow> Some st
      | Some t \<Rightarrow>
          (let st1 = st\<lparr>timers := remove1 t (timers st),
                        now := max (now st) (due t),
                        fired := fired st @ [tid t]\<rparr>
           in case cb t of
                FlowAction a \<Rightarrow>
                  (case executeAction (navigateToSection d) a st1 of
                     None \<Rightarrow> None
                   | Some (Normal st') \<Rightarrow> Some st'
                   | Some (Throw st') \<Rightarrow> Some st')
              | AutoAdvance \<Rightarrow> pc_nextStep (navigateToSection d) st1
              | DemoNextStep \<Rightarrow> demo_nextStep d st1
              | DemoNavigate s \<Rightarrow> navigateToSection d s st1))"

text \<open>
  What can happen to the system from outside: a call of one of the exposed commands, a
  timer firing, or time passing without one (a browser may fire a timer late). An
  exception that reaches the caller ends the command in the state of the throw.
\<close>

datatype op =
    NavigateTo string | NextSection | PreviousSection
  | Play | Pause | Stop | Reset | NextStep | PreviousStep | GotoStep int | UserInteraction
  | DemoStart | DemoStop | DemoPause | DemoResume | DemoSkipToStep int
  | Fire | Elapse nat

definition result :: "outcome option \<Rightarrow> state option" where
  "result r = (case r of None \<Rightarrow> None | Some (Normal st) \<Rightarrow> Some st | Some (Throw st) \<Rightarrow> Some st)"

fun apply_op :: "nat \<Rightarrow> op \<Rightarrow> state \<Rightarrow> state option" where
  "apply_op d (NavigateTo s) st = navigateToSection d s st"
| "apply_op d NextSection st = nextSection d st"
| "apply_op d PreviousSection st = previousSection d st"
| "apply_op d Play st = result (pc_play (navigateToSection d) st)"
| "apply_op d Pause st = Some (pc_pause st)"
| "apply_op d Stop st = Some (pc_stop st)"
| "apply_op d Reset st = pc_reset (navigateToSection d) st"
| "apply_op d NextStep st = pc_nextStep (navigateToSection d) st"
| "apply_op d PreviousStep st = pc_previousStep (navigateToSection d) st"
| "apply_op d (GotoStep i) st = pc_gotoStep (navigateToSection d) i st"
| "apply_op d UserInteraction st = Some (handleUserInteraction st)"
| "apply_op d DemoStart st = demo_start d st"
| "apply_op d DemoStop st = Some (demo_stop st)"
| "apply_op d DemoPause st = Some (demo_pause st)"
| "apply_op d DemoResume st = demo_resume d st"
| "apply_op d (DemoSkipToStep i) st = demo_skipToStep d i st"
| "apply_op d Fire st = fire d st"
| "apply_op d (Elapse n) st = Some (st\<lparr>now := now st + n\<rparr>)"

fun run :: "nat \<Rightarrow> op list \<Rightarrow> state \<Rightarrow> state option" where
  "run d [] st = Some st"
| "run d (x # xs) st = (case apply_op d x st of None \<Rightarrow> None | Some st' \<Rightarrow> run d xs st')"

text \<open>The system after the page has loaded at wall-clock time \<open>t0\<close>.\<close>

definition initial :: "nat \<Rightarrow> state" where
  "initial t0 = init (constructed t0)"

section \<open>Closed forms on the static flow\<close>

text \<open>
  Every step of \<open>flowSteps\<close> starts with an undelayed \<open>showSection\<close> of its own section
  and goes on with delayed actions only. On such a step the scheduler's loop registers one
  timer per delayed action (\<open>scheduled\<close>); the PresentationController's listener amounts
  to \<open>handled\<close>, a navigation that passes the guard to \<open>entered\<close>, and any navigation to
  \<open>navigated\<close>. The lemmas below prove that the methods compute exactly these states.
\<close>

definition scheduled :: "action list \<Rightarrow> state \<Rightarrow> state" where
  "scheduled as st = foldl (\<lambda>s a. snd (setTimeout (FlowAction a) (the (a_delay a)) s)) st as"

definition handled :: "string \<Rightarrow> state \<Rightarrow> state" where
  "handled s st =
     (let st1 = st\<lparr>pc_currentSection := s\<rparr>;
          i = findIndex (\<lambda>step. fs_section step = s) flowSteps
      in if i \<noteq> -1 then
           (let step = flowSteps ! nat i;
                st3 = scheduled (tl (fs_actions step)) (st1\<lparr>pc_currentStep := nat i\<rparr>)
            in updatePresentationState
                 (if autoAdvance st3 then snd (setTimeout AutoAdvance (fs_duration step) st3) else st3))
         else updatePresentationState st1)"

definition entered :: "string \<Rightarrow> state \<Rightarrow> state" where
  "entered s st = handled s (logEvent (SectionChanged s s) (st\<lparr>ace_currentSection := s\<rparr>))"

definition navigated :: "string \<Rightarrow> state \<Rightarrow> state" where
  "navigated s st = (if ace_currentSection st = s then st else entered s st)"

fun newTimers :: "nat \<Rightarrow> nat \<Rightarrow> action list \<Rightarrow> timer list" where
  "newTimers n t [] = []"
| "newTimers n t (a # as) =
     \<lparr>tid = n, due = t + the (a_delay a), cb = FlowAction a\<rparr> # newTimers (Suc n) t as"

definition autoTimer :: "flow_step \<Rightarrow> state \<Rightarrow> timer list" where
  "autoTimer step st =
     (if autoAdvance st
      then [\<lparr>tid = nextTimer st + length (tl (fs_actions step)),
             due = now st + fs_duration step, cb = AutoAdvance\<rparr>]
      else [])"

definition enteredTimers :: "string \<Rightarrow> state \<Rightarrow> timer list" where
  "enteredTimers s st =
     (let i = findIndex (\<lambda>step. fs_section step = s) flowSteps
      in if i \<noteq> -1
         then newTimers (nextTimer st) (now st) (tl (fs_actions (flowSteps ! nat i)))
              @ autoTimer (flowSteps ! nat i) st
         else [])"

text \<open>
  The demo driver's own timers among the pending ones, and the invariant of the driver:
  at most one of them is pending, \<open>this.stepTimeout\<close> holds its handle, and none is pending
  while the driver is idle or paused.
\<close>

definition stepTimers :: "state \<Rightarrow> timer list" where
  "stepTimers st = filter (\<lambda>t. cb t = DemoNextStep) (timers st)"

definition demo_inv :: "state \<Rightarrow> bool" where
  "demo_inv st \<longleftrightarrow>
     length (stepTimers st) \<le> 1
     \<and> (\<forall>t\<in>set (stepTimers st). stepTimeout st = Some (tid t))
     \<and> (\<not> demo_isRunning st \<or> demo_isPaused st \<longrightarrow> stepTimers st = [])"

text \<open>What \<open>runDemoAction\<close> returns when a dispatch has room.\<close>

definition acted :: "demo_action \<Rightarrow> state \<Rightarrow> state" where
  "acted act st =
     (case act of
        Navigate s \<Rightarrow> navigated s st
      | PageEffect \<Rightarrow> st
      | CloseModalThenNavigate s \<Rightarrow> snd (setTimeout (DemoNavigate s) 500 st)
      | ResetDemo \<Rightarrow> navigated ''chaos'' (st\<lparr>demo_currentStep := 0\<rparr>))"

text \<open>What \<open>executeStep\<close> leaves behind when it runs the step \<open>step\<close>.\<close>

definition stepped :: "demo_step \<Rightarrow> state \<Rightarrow> state" where
  "stepped step st =
     (let st1 = acted (ds_action step) (logEvent (DemoAction (demo_currentStep st)) st);
          (h, st2) = setTimeout DemoNextStep (ds_duration step) st1
      in st2\<lparr>stepTimeout := Some h\<rparr>)"

definition pendingStepTimers :: "state \<Rightarrow> nat" where
  "pendingStepTimers st = length (stepTimers st)"

text \<open>How often the action of demo step \<open>k\<close> has run.\<close>

definition actionCount :: "nat \<Rightarrow> state \<Rightarrow> nat" where
  "actionCount k st = count_list (trace st) (DemoAction k)"

text \<open>
  A driver in the middle of its script: running, not paused, one step timer pending, and
  at an index from which \<open>nextStep\<close> stays inside the script.
\<close>

definition looping :: "state \<Rightarrow> bool" where
  "looping st \<longleftrightarrow>
     demo_isRunning st \<and> \<not> demo_isPaused st \<and> pendingStepTimers st = 1
     \<and> demo_currentStep st + 1 < length demoSequence"



section \<open>The navigation in closed form\<close>

lemma findIndex_flowSteps:
  "findIndex (\<lambda>step. fs_section step = s) flowSteps =
     (if s = ''chaos'' then 0 else if s = ''valet'' then 1 else if s = ''manager'' then 2
      else if s = ''executive'' then 3 else if s = ''closing'' then 4 else -1)"
  by (simp add: flowSteps_def)

lemma navigateToSection_same:
  "ace_currentSection st = s \<Longrightarrow> navigateToSection d s st = Some st"
  by (cases d) simp_all

lemma forEachAction_delayed:
  "\<forall>a\<in>set as. truthy (a_delay a) \<Longrightarrow>
   forEachAction nav as st = Some (Normal (scheduled as st))"
  by (induction as arbitrary: st) (auto simp: scheduled_def)

lemma flowSteps_shape:
  "step \<in> set flowSteps \<Longrightarrow>
   fs_actions step =
     \<lparr>a_type = ''showSection'', a_target = fs_section step, a_delay = None\<rparr> # tl (fs_actions step)
   \<and> (\<forall>a\<in>set (tl (fs_actions step)). truthy (a_delay a))"
  by (auto simp add: flowSteps_def truthy_def)

lemma executeFlowStep_static:
  assumes "step \<in> set flowSteps" "ace_currentSection st = fs_section step"
  shows "executeFlowStep (navigateToSection d) step st =
         Some (Normal (let st3 = scheduled (tl (fs_actions step)) st
                       in if autoAdvance st3
                          then snd (setTimeout AutoAdvance (fs_duration step) st3) else st3))"
proof -
  from flowSteps_shape[OF assms(1)] obtain
    a: "fs_actions step =
          \<lparr>a_type = ''showSection'', a_target = fs_section step, a_delay = None\<rparr> # tl (fs_actions step)"
    and b: "\<forall>a\<in>set (tl (fs_actions step)). truthy (a_delay a)" by blast
  have "forEachAction (navigateToSection d) (fs_actions step) st =
          Some (Normal (scheduled (tl (fs_actions step)) st))"
    apply (subst a)
    apply (simp add: truthy_def executeAction_def pc_showSection_def
        navigateToSection_same[OF assms(2)] forEachAction_delayed[OF b])
    done
  then show ?thesis by (simp add: executeFlowStep_def Let_def)
qed

lemma fs_section_found:
  "findIndex (\<lambda>step. fs_section step = s) flowSteps \<noteq> -1 \<Longrightarrow>
   fs_section (flowSteps ! nat (findIndex (\<lambda>step. fs_section step = s) flowSteps)) = s
   \<and> flowSteps ! nat (findIndex (\<lambda>step. fs_section step = s) flowSteps) \<in> set flowSteps"
  by (simp add: findIndex_flowSteps split: if_splits) (simp_all add: flowSteps_def)

lemma pc_handleSectionChange_static:
  assumes "ace_currentSection st = s"
  shows "pc_handleSectionChange (navigateToSection d) s st = Some (handled s st)"
proof (cases "findIndex (\<lambda>step. fs_section step = s) flowSteps = -1")
  case True
  then show ?thesis by (simp add: pc_handleSectionChange_def handled_def)
next
  case False
  let ?i = "findIndex (\<lambda>step. fs_section step = s) flowSteps"
  let ?st = "st\<lparr>pc_currentSection := s, pc_currentStep := nat ?i\<rparr>"
  from fs_section_found[OF False] have sec: "fs_section (flowSteps ! nat ?i) = s"
    and mem: "flowSteps ! nat ?i \<in> set flowSteps" by auto
  have "executeFlowStep (navigateToSection d) (flowSteps ! nat ?i) ?st
        = Some (Normal (let st3 = scheduled (tl (fs_actions (flowSteps ! nat ?i))) ?st
                        in if autoAdvance st3
                           then snd (setTimeout AutoAdvance (fs_duration (flowSteps ! nat ?i)) st3)
                           else st3))"
    by (rule executeFlowStep_static[OF mem]) (simp add: sec assms)
  with False show ?thesis
    by (simp add: pc_handleSectionChange_def handled_def Let_def)
qed

lemma ace_updatePresentationState [simp]:
  "ace_currentSection (updatePresentationState st) = ace_currentSection st"
  by (simp add: updatePresentationState_def Let_def)

lemma ace_setTimeout [simp]:
  "ace_currentSection (snd (setTimeout c ms st)) = ace_currentSection st"
  by (simp add: setTimeout_def)

lemma ace_scheduled [simp]: "ace_currentSection (scheduled as st) = ace_currentSection st"
  by (induction as arbitrary: st) (auto simp: scheduled_def setTimeout_def)

lemma ace_handled [simp]: "ace_currentSection (handled s st) = ace_currentSection st"
  by (simp add: handled_def Let_def)

lemma ace_entered [simp]: "ace_currentSection (entered s st) = s"
  by (simp add: entered_def logEvent_def)

lemma ace_navigated [simp]: "ace_currentSection (navigated s st) = s"
  by (simp add: navigated_def)

text \<open>With room for one dispatch, every navigation returns, in the state \<open>navigated\<close>.\<close>

lemma navigateToSection_Suc:
  "navigateToSection (Suc d) s st = Some (navigated s st)"
  by (simp add: navigated_def entered_def Let_def pc_handleSectionChange_static
        navigateToSection_same logEvent_def)

declare navigateToSection.simps [simp del]

lemma trace_updatePresentationState [simp]:
  "trace (updatePresentationState st) = trace st"
  by (simp add: updatePresentationState_def Let_def)

lemma trace_setTimeout [simp]: "trace (snd (setTimeout c ms st)) = trace st"
  by (simp add: setTimeout_def)

lemma trace_scheduled [simp]: "trace (scheduled as st) = trace st"
  by (induction as arbitrary: st) (auto simp: scheduled_def setTimeout_def)

lemma trace_handled [simp]: "trace (handled s st) = trace st"
  by (simp add: handled_def Let_def)

lemma trace_entered [simp]: "trace (entered s st) = trace st @ [SectionChanged s s]"
  by (simp add: entered_def logEvent_def)

lemma indexOf_sections:
  "indexOf sections s =
     (if s = ''chaos'' then 0 else if s = ''valet'' then 1 else if s = ''manager'' then 2
      else if s = ''executive'' then 3 else if s = ''closing'' then 4 else -1)"
  by (simp add: indexOf_def sections_def)

lemma next_of_section:
  "sections ! nat ((indexOf sections s + 1) mod int (length sections)) =
     (if s = ''chaos'' then ''valet'' else if s = ''valet'' then ''manager''
      else if s = ''manager'' then ''executive'' else if s = ''executive'' then ''closing''
      else ''chaos'')"
  by (simp add: indexOf_sections) (simp add: sections_def)

lemma previous_of_section:
  "sections ! nat ((indexOf sections s - 1 + int (length sections)) mod int (length sections)) =
     (if s = ''chaos'' then ''closing'' else if s = ''valet'' then ''chaos''
      else if s = ''manager'' then ''valet'' else if s = ''executive'' then ''manager''
      else ''executive'')"
  by (simp add: indexOf_sections) (simp add: sections_def)

lemma nextSection_next:
  "nextSection (Suc d) st =
     Some (navigated
             (if ace_currentSection st = ''chaos'' then ''valet''
              else if ace_currentSection st = ''valet'' then ''manager''
              else if ace_currentSection st = ''manager'' then ''executive''
              else if ace_currentSection st = ''executive'' then ''closing''
              else ''chaos'') st)"
  unfolding nextSection_def Let_def navigateToSection_Suc next_of_section ..

lemma previousSection_previous:
  "previousSection (Suc d) st =
     Some (navigated
             (if ace_currentSection st = ''chaos'' then ''closing''
              else if ace_currentSection st = ''valet'' then ''chaos''
              else if ace_currentSection st = ''manager'' then ''valet''
              else if ace_currentSection st = ''executive'' then ''manager''
              else ''executive'') st)"
  unfolding previousSection_def Let_def navigateToSection_Suc previous_of_section ..

lemma initial_sections [simp]:
  "ace_currentSection (initial t0) = ''chaos''" "pc_currentStep (initial t0) = 0"
  by (simp_all add: initial_def init_def setupPresentationState_def constructed_def)

subsection \<open>What a navigation changes, field by field\<close>

lemma length_newTimers [simp]: "length (newTimers n t as) = length as"
  by (induction as arbitrary: n) simp_all

lemma scheduled_Cons:
  "scheduled (a # as) st = scheduled as (snd (setTimeout (FlowAction a) (the (a_delay a)) st))"
  by (simp add: scheduled_def)

lemma scheduled_Nil [simp]: "scheduled [] st = st"
  by (simp add: scheduled_def)

lemma scheduled_fields [simp]:
  "pc_currentSection (scheduled as st) = pc_currentSection st"
  "pc_currentStep (scheduled as st) = pc_currentStep st"
  "autoAdvance (scheduled as st) = autoAdvance st"
  "presentationState (scheduled as st) = presentationState st"
  "demo_isRunning (scheduled as st) = demo_isRunning st"
  "demo_isPaused (scheduled as st) = demo_isPaused st"
  "demo_currentStep (scheduled as st) = demo_currentStep st"
  "stepTimeout (scheduled as st) = stepTimeout st"
  "now (scheduled as st) = now st"
  "fired (scheduled as st) = fired st"
  by (induction as arbitrary: st) (simp_all add: scheduled_Cons setTimeout_def)

lemma nextTimer_scheduled [simp]: "nextTimer (scheduled as st) = nextTimer st + length as"
  by (induction as arbitrary: st) (simp_all add: scheduled_Cons setTimeout_def)

lemma timers_scheduled [simp]:
  "timers (scheduled as st) = timers st @ newTimers (nextTimer st) (now st) as"
  by (induction as arbitrary: st) (simp_all add: scheduled_Cons setTimeout_def)

lemma handled_fields [simp]:
  "pc_currentSection (handled s st) = s"
  "autoAdvance (handled s st) = autoAdvance st"
  "demo_isRunning (handled s st) = demo_isRunning st"
  "demo_isPaused (handled s st) = demo_isPaused st"
  "demo_currentStep (handled s st) = demo_currentStep st"
  "stepTimeout (handled s st) = stepTimeout st"
  "now (handled s st) = now st"
  "fired (handled s st) = fired st"
  by (simp_all add: handled_def Let_def updatePresentationState_def setTimeout_def)

lemma timers_handled [simp]: "timers (handled s st) = timers st @ enteredTimers s st"
  by (simp add: handled_def Let_def updatePresentationState_def setTimeout_def
        enteredTimers_def autoTimer_def)

lemma nextTimer_handled [simp]:
  "nextTimer (handled s st) = nextTimer st + length (enteredTimers s st)"
  by (simp add: handled_def Let_def updatePresentationState_def setTimeout_def
        enteredTimers_def autoTimer_def)

lemma pc_currentStep_handled [simp]:
  "pc_currentStep (handled s st) =
     (if findIndex (\<lambda>step. fs_section step = s) flowSteps \<noteq> -1
      then nat (findIndex (\<lambda>step. fs_section step = s) flowSteps) else pc_currentStep st)"
  by (simp add: handled_def Let_def updatePresentationState_def setTimeout_def)

lemma presentationState_handled [simp]:
  "presentationState (handled s st) =
     (presentationState st)\<lparr>currentTime :=
        elapsedSince (startTime (presentationState st)) (now st)\<rparr>"
  by (simp add: handled_def Let_def updatePresentationState_def setTimeout_def)

lemma enteredTimers_frame [simp]:
  "enteredTimers s (st\<lparr>ace_currentSection := x\<rparr>) = enteredTimers s st"
  "enteredTimers s (st\<lparr>trace := y\<rparr>) = enteredTimers s st"
  "enteredTimers s (st\<lparr>pc_currentStep := z\<rparr>) = enteredTimers s st"
  by (simp_all add: enteredTimers_def autoTimer_def Let_def)

lemma entered_fields [simp]:
  "pc_currentSection (entered s st) = s"
  "autoAdvance (entered s st) = autoAdvance st"
  "demo_isRunning (entered s st) = demo_isRunning st"
  "demo_isPaused (entered s st) = demo_isPaused st"
  "demo_currentStep (entered s st) = demo_currentStep st"
  "stepTimeout (entered s st) = stepTimeout st"
  "now (entered s st) = now st"
  "fired (entered s st) = fired st"
  "timers (entered s st) = timers st @ enteredTimers s st"
  "nextTimer (entered s st) = nextTimer st + length (enteredTimers s st)"
  "pc_currentStep (entered s st) =
     (if findIndex (\<lambda>step. fs_section step = s) flowSteps \<noteq> -1
      then nat (findIndex (\<lambda>step. fs_section step = s) flowSteps) else pc_currentStep st)"
  "presentationState (entered s st) =
     (presentationState st)\<lparr>currentTime :=
        elapsedSince (startTime (presentationState st)) (now st)\<rparr>"
  by (simp_all add: entered_def logEvent_def)

lemma navigated_fields [simp]:
  "autoAdvance (navigated s st) = autoAdvance st"
  "demo_isRunning (navigated s st) = demo_isRunning st"
  "demo_isPaused (navigated s st) = demo_isPaused st"
  "demo_currentStep (navigated s st) = demo_currentStep st"
  "stepTimeout (navigated s st) = stepTimeout st"
  "now (navigated s st) = now st"
  "fired (navigated s st) = fired st"
  by (simp_all add: navigated_def)

lemma presentationState_navigated [simp]:
  "isPlaying (presentationState (navigated s st)) = isPlaying (presentationState st)"
  "isPaused (presentationState (navigated s st)) = isPaused (presentationState st)"
  "startTime (presentationState (navigated s st)) = startTime (presentationState st)"
  "totalDuration (presentationState (navigated s st)) = totalDuration (presentationState st)"
  by (simp_all add: navigated_def)

lemma timers_navigated:
  "timers (navigated s st) =
     timers st @ (if ace_currentSection st = s then [] else enteredTimers s st)"
  "nextTimer (navigated s st) =
     nextTimer st + (if ace_currentSection st = s then 0 else length (enteredTimers s st))"
  by (simp_all add: navigated_def)

subsection \<open>The demo driver's timers\<close>

lemma runDemoAction_Suc: "runDemoAction (Suc d) act st = Some (acted act st)"
  by (simp add: runDemoAction_def acted_def demo_reset_def navigateToSection_Suc
        split: demo_action.split)

lemma cb_newTimers: "t \<in> set (newTimers n u as) \<Longrightarrow> \<exists>a. cb t = FlowAction a"
  by (induction as arbitrary: n) auto

lemma stepTimers_enteredTimers [simp]:
  "filter (\<lambda>t. cb t = DemoNextStep) (enteredTimers s st) = []"
  by (auto simp: enteredTimers_def autoTimer_def Let_def filter_empty_conv dest: cb_newTimers)

lemma stepTimers_navigated [simp]: "stepTimers (navigated s st) = stepTimers st"
  by (simp add: stepTimers_def timers_navigated)

lemma stepTimers_frame [simp]:
  "stepTimers (st\<lparr>demo_isRunning := a\<rparr>) = stepTimers st"
  "stepTimers (st\<lparr>demo_isPaused := b\<rparr>) = stepTimers st"
  "stepTimers (st\<lparr>demo_currentStep := k\<rparr>) = stepTimers st"
  "stepTimers (st\<lparr>stepTimeout := h\<rparr>) = stepTimers st"
  "stepTimers (logEvent e st) = stepTimers st"
  "stepTimers (st\<lparr>trace := tr\<rparr>) = stepTimers st"
  "stepTimers (st\<lparr>pc_currentStep := n\<rparr>) = stepTimers st"
  by (simp_all add: stepTimers_def logEvent_def)

lemma stepTimers_clearTimeout [simp]:
  "stepTimers (clearTimeout h st) = filter (\<lambda>t. tid t \<noteq> h) (stepTimers st)"
  by (simp add: stepTimers_def clearTimeout_def) (metis (mono_tags, lifting) filter_cong)

lemma stepTimers_acted [simp]: "stepTimers (acted act st) = stepTimers st"
  by (cases act) (simp_all add: acted_def stepTimers_def setTimeout_def timers_navigated)

lemma acted_fields [simp]:
  "demo_isRunning (acted act st) = demo_isRunning st"
  "demo_isPaused (acted act st) = demo_isPaused st"
  "stepTimeout (acted act st) = stepTimeout st"
  "now (acted act st) = now st"
  by (cases act; simp add: acted_def setTimeout_def)+

lemma nextTimer_acted: "nextTimer st \<le> nextTimer (acted act st)"
  by (cases act) (simp_all add: acted_def setTimeout_def timers_navigated)

lemma stepTimers_cleared:
  assumes "\<forall>t\<in>set (stepTimers st). stepTimeout st = Some (tid t)"
  shows "stepTimers (case stepTimeout st of
                       Some h \<Rightarrow> (clearTimeout h st)\<lparr>stepTimeout := None\<rparr>
                     | None \<Rightarrow> st) = []"
proof (cases "stepTimeout st")
  case None
  with assms show ?thesis by (cases "stepTimers st") auto
next
  case (Some h)
  with assms show ?thesis by (auto simp: filter_empty_conv)
qed

lemma demo_inv_empty:
  "stepTimers st = [] \<Longrightarrow> demo_inv st"
  by (simp add: demo_inv_def)

lemma demo_stop_inv:
  assumes "demo_inv st"
  shows "stepTimers (demo_stop st) = []"
proof -
  let ?st1 = "st\<lparr>demo_isRunning := False, demo_isPaused := False\<rparr>"
  from assms have "\<forall>t\<in>set (stepTimers ?st1). stepTimeout ?st1 = Some (tid t)"
    by (simp add: demo_inv_def)
  from stepTimers_cleared[OF this] show ?thesis by (simp add: demo_stop_def Let_def)
qed


text \<open>
  The state after \<open>executeStep\<close> has run the step at the current index: the action, then
  the new timer, whose handle goes to \<open>this.stepTimeout\<close>.
\<close>

lemma demo_executeStep_Suc:
  "demo_executeStep (Suc d) st =
     Some (if \<not> demo_isRunning st \<or> demo_isPaused st then st
           else case element demoSequence (int (demo_currentStep st)) of
                  None \<Rightarrow> demo_stop st
                | Some step \<Rightarrow> stepped step st)"
  by (simp add: demo_executeStep_def runDemoAction_Suc stepped_def Let_def setTimeout_def
        split: option.split)

lemma stepTimers_stepped:
  "stepTimers (stepped step st) =
     stepTimers st @ [\<lparr>tid = the (stepTimeout (stepped step st)),
                       due = now st + ds_duration step, cb = DemoNextStep\<rparr>]"
  by (simp add: stepped_def Let_def stepTimers_def setTimeout_def)
     (simp add: stepTimers_def[symmetric] logEvent_def)

lemma stepped_fields [simp]:
  "demo_isRunning (stepped step st) = demo_isRunning st"
  "demo_isPaused (stepped step st) = demo_isPaused st"
  by (simp_all add: stepped_def Let_def setTimeout_def logEvent_def)

lemma stepTimeout_stepped:
  "\<exists>h. stepTimeout (stepped step st) = Some h \<and> nextTimer st \<le> h"
  using nextTimer_acted[of "logEvent (DemoAction (demo_currentStep st)) st" "ds_action step"]
  by (simp add: stepped_def Let_def setTimeout_def logEvent_def)

lemma demo_executeStep_inv:
  assumes "stepTimers st = []"
  shows "\<exists>st'. demo_executeStep (Suc d) st = Some st' \<and> demo_inv st'"
proof -
  have a: "demo_inv st" using assms by (rule demo_inv_empty)
  have b: "demo_inv (demo_stop st)" using demo_stop_inv[OF a] by (rule demo_inv_empty)
  have c: "demo_inv (stepped step st)" if "demo_isRunning st" "\<not> demo_isPaused st" for step
    using stepTimeout_stepped[of step st] that
    by (auto simp add: demo_inv_def stepTimers_stepped assms)
  show ?thesis
    by (simp add: demo_executeStep_Suc a b c split: option.split)
qed


lemma demo_start_inv:
  assumes "demo_inv st"
  shows "\<exists>st'. demo_start (Suc d) st = Some st' \<and> demo_inv st'"
proof -
  have "stepTimers (if demo_isRunning st then demo_stop st else st) = []"
    using assms demo_stop_inv[OF assms] by (auto simp: demo_inv_def)
  then have "stepTimers ((if demo_isRunning st then demo_stop st else st)
      \<lparr>demo_isRunning := True, demo_isPaused := False, demo_currentStep := 0\<rparr>) = []"
    by simp
  from demo_executeStep_inv[OF this, of d] show ?thesis by (simp add: demo_start_def Let_def)
qed




subsection \<open>A firing timer\<close>

lemma earliest_mem: "earliest ts = Some t \<Longrightarrow> t \<in> set ts"
  by (induction ts arbitrary: t) (auto split: option.splits if_splits)




lemma executeAction_Suc:
  "executeAction (navigateToSection (Suc d)) a st =
     Some (if a_type a = ''showSection'' then Normal (navigated (a_target a) st)
           else if a_type a = ''showProblemCount'' then Throw (logEvent (Raised (a_type a)) st)
           else if a_type a \<in> set knownActions then Normal (logEvent (Effect (a_type a)) st)
           else Normal (logEvent (Warned (a_type a)) st))"
  by (simp add: executeAction_def pc_showSection_def navigateToSection_Suc)

lemma pc_nextStep_Suc:
  "pc_nextStep (navigateToSection (Suc d)) st =
     Some (if int (pc_currentStep st) < int (length flowSteps) - 1
           then navigated (fs_section (flowSteps ! (pc_currentStep st + 1)))
                  (st\<lparr>pc_currentStep := pc_currentStep st + 1\<rparr>)
           else st)"
  by (simp add: pc_nextStep_def pc_showSection_def navigateToSection_Suc Let_def)


lemma initial_fields [simp]:
  "pc_currentSection (initial t0) = ''chaos''"
  "autoAdvance (initial t0) = False"
  "demo_isRunning (initial t0) = False"
  "demo_isPaused (initial t0) = False"
  "demo_currentStep (initial t0) = 0"
  "stepTimeout (initial t0) = None"
  "now (initial t0) = t0"
  "nextTimer (initial t0) = 1"
  "timers (initial t0) = []"
  "fired (initial t0) = []"
  "trace (initial t0) = []"
  by (simp_all add: initial_def init_def setupPresentationState_def constructed_def)

lemma demo_inv_initial: "demo_inv (initial t0)"
  by (simp add: demo_inv_def stepTimers_def)

lemma demo_currentStep_stepped_Navigate [simp]:
  "ds_action step = Navigate s \<Longrightarrow> demo_currentStep (stepped step st) = demo_currentStep st"
  by (simp add: stepped_def Let_def setTimeout_def acted_def logEvent_def)

lemma element_demoSequence_0:
  "element demoSequence 0 =
     Some \<lparr>ds_name = ''Show chaos section'', ds_action = Navigate ''chaos'', ds_duration = 4000\<rparr>"
  by (simp add: element_def demoSequence_def)

lemma demo_start_restarts:
  assumes "demo_inv st"
  shows "\<exists>st' h. demo_start (Suc d) st = Some st' \<and> demo_inv st'
           \<and> demo_isRunning st' \<and> \<not> demo_isPaused st' \<and> demo_currentStep st' = 0
           \<and> stepTimeout st' = Some h \<and> nextTimer st \<le> h
           \<and> stepTimers st' = [\<lparr>tid = h, due = now st + 4000, cb = DemoNextStep\<rparr>]"
proof -
  let ?st1 = "if demo_isRunning st then demo_stop st else st"
  let ?st2 = "?st1\<lparr>demo_isRunning := True, demo_isPaused := False, demo_currentStep := 0\<rparr>"
  let ?step = "\<lparr>ds_name = ''Show chaos section'', ds_action = Navigate ''chaos'', ds_duration = 4000\<rparr>"
  have e1: "stepTimers ?st1 = []"
    using assms demo_stop_inv[OF assms] by (auto simp: demo_inv_def)
  then have e2: "stepTimers ?st2 = []" by simp
  have n: "now ?st2 = now st" "nextTimer ?st2 = nextTimer st"
    by (simp_all add: demo_stop_def Let_def clearTimeout_def split: option.split)
  have s: "demo_start (Suc d) st = Some (stepped ?step ?st2)"
    by (simp add: demo_start_def Let_def demo_executeStep_Suc element_demoSequence_0)
  from demo_start_inv[OF assms, of d] s have i: "demo_inv (stepped ?step ?st2)" by simp
  from stepTimeout_stepped[of ?step ?st2] n obtain h where
    h: "stepTimeout (stepped ?step ?st2) = Some h" "nextTimer st \<le> h" by auto
  have c: "demo_currentStep (stepped ?step ?st2) = 0"
    by (simp add: stepped_def Let_def setTimeout_def acted_def logEvent_def)
  have t: "stepTimers (stepped ?step ?st2) = [\<lparr>tid = h, due = now st + 4000, cb = DemoNextStep\<rparr>]"
    using stepTimers_stepped[of ?step ?st2] e2 h n by simp
  from s i h c t show ?thesis by simp
qed

subsection \<open>Counting the demo actions\<close>

lemma logEvent_fields [simp]:
  "ace_currentSection (logEvent e st) = ace_currentSection st"
  "pc_currentSection (logEvent e st) = pc_currentSection st"
  "pc_currentStep (logEvent e st) = pc_currentStep st"
  "autoAdvance (logEvent e st) = autoAdvance st"
  "presentationState (logEvent e st) = presentationState st"
  "demo_isRunning (logEvent e st) = demo_isRunning st"
  "demo_isPaused (logEvent e st) = demo_isPaused st"
  "demo_currentStep (logEvent e st) = demo_currentStep st"
  "stepTimeout (logEvent e st) = stepTimeout st"
  "now (logEvent e st) = now st"
  "nextTimer (logEvent e st) = nextTimer st"
  "timers (logEvent e st) = timers st"
  "fired (logEvent e st) = fired st"
  "trace (logEvent e st) = trace st @ [e]"
  by (simp_all add: logEvent_def)

lemma trace_navigated:
  "trace (navigated s st) = trace st @ (if ace_currentSection st = s then [] else [SectionChanged s s])"
  by (simp add: navigated_def)

lemma actionCount_navigated [simp]: "actionCount k (navigated s st) = actionCount k st"
  by (simp add: actionCount_def trace_navigated)

lemma actionCount_acted [simp]: "actionCount k (acted act st) = actionCount k st"
  by (cases act) (simp_all add: acted_def actionCount_def setTimeout_def trace_navigated)

lemma actionCount_stepped:
  "actionCount k (stepped step st) = actionCount k st + (if demo_currentStep st = k then 1 else 0)"
proof -
  have "actionCount k (stepped step st) =
          actionCount k (acted (ds_action step) (logEvent (DemoAction (demo_currentStep st)) st))"
    by (simp add: stepped_def Let_def setTimeout_def actionCount_def split: prod.split)
  also have "\<dots> = actionCount k (logEvent (DemoAction (demo_currentStep st)) st)" by simp
  finally show ?thesis by (auto simp add: actionCount_def logEvent_def)
qed

lemma element_demoSequence:
  "k < length demoSequence \<Longrightarrow> element demoSequence (int k) = Some (demoSequence ! k)"
  by (simp add: element_def)

lemma demo_pause_running:
  assumes "demo_inv st" "demo_isRunning st"
  shows "stepTimers (demo_pause st) = []" "demo_isRunning (demo_pause st)"
    "demo_isPaused (demo_pause st)" "demo_currentStep (demo_pause st) = demo_currentStep st"
    "now (demo_pause st) = now st" "trace (demo_pause st) = trace st"
    "nextTimer (demo_pause st) = nextTimer st"
proof -
  let ?st1 = "st\<lparr>demo_isPaused := True\<rparr>"
  from assms have "\<forall>t\<in>set (stepTimers ?st1). stepTimeout ?st1 = Some (tid t)"
    by (simp add: demo_inv_def)
  from stepTimers_cleared[OF this] assms(2) show "stepTimers (demo_pause st) = []"
    by (simp add: demo_pause_def Let_def)
qed (simp_all add: demo_pause_def Let_def clearTimeout_def assms split: option.split)

subsection \<open>The demo script never leaves its loop\<close>

lemma demoSequence_ResetDemo:
  assumes "k < length demoSequence"
  shows "ds_action (demoSequence ! k) = ResetDemo \<longleftrightarrow> k + 1 = length demoSequence"
proof -
  from assms have "k < 10" by (simp add: demoSequence_def)
  then consider "k = 0" | "k = 1" | "k = 2" | "k = 3" | "k = 4" | "k = 5" | "k = 6" | "k = 7"
    | "k = 8" | "k = 9" by atomize_elim arith
  then show ?thesis by cases (simp_all add: demoSequence_def)
qed

lemma demo_currentStep_acted:
  "demo_currentStep (acted act st) = (if act = ResetDemo then 0 else demo_currentStep st)"
  by (cases act) (simp_all add: acted_def setTimeout_def)

lemma demo_currentStep_stepped:
  "demo_currentStep (stepped step st) =
     (if ds_action step = ResetDemo then 0 else demo_currentStep st)"
  by (simp add: stepped_def Let_def setTimeout_def demo_currentStep_acted split: prod.split)

lemma looping_stepped:
  assumes "demo_isRunning st" "\<not> demo_isPaused st" "stepTimers st = []"
    "demo_currentStep st < length demoSequence"
  shows "looping (stepped (demoSequence ! demo_currentStep st) st)"
proof -
  have "length demoSequence = 10" by (simp add: demoSequence_def)
  with assms demoSequence_ResetDemo[OF assms(4)] show ?thesis
    by (auto simp add: looping_def pendingStepTimers_def stepTimers_stepped
          demo_currentStep_stepped)
qed

lemma element_demoSequence_Suc:
  "Suc k < length demoSequence \<Longrightarrow> element demoSequence (1 + int k) = Some (demoSequence ! Suc k)"
proof -
  have "nat (1 + int k) = Suc k" by simp
  then show "Suc k < length demoSequence \<Longrightarrow> ?thesis" by (simp add: element_def)
qed

lemma looping_fire:
  assumes "looping st"
  shows "\<exists>st'. fire (Suc d) st = Some st' \<and> looping st'"
proof (cases "earliest (timers st)")
  case None
  with assms show ?thesis by (simp add: fire_def)
next
  case (Some t)
  let ?st1 = "st\<lparr>timers := remove1 t (timers st), now := max (now st) (due t),
                fired := fired st @ [tid t]\<rparr>"
  show ?thesis
  proof (cases "cb t = DemoNextStep")
    case True
    from True earliest_mem[OF Some] have m: "t \<in> set (stepTimers st)" by (simp add: stepTimers_def)
    from assms have "length (stepTimers st) = 1" by (simp add: looping_def pendingStepTimers_def)
    with m have "stepTimers st = [t]" by (cases "stepTimers st") auto
    then have e: "stepTimers ?st1 = []" by (simp add: stepTimers_def filter_remove1)
    let ?st2 = "?st1\<lparr>demo_currentStep := demo_currentStep st + 1\<rparr>"
    from assms have r: "demo_isRunning ?st2" "\<not> demo_isPaused ?st2"
      "demo_currentStep ?st2 < length demoSequence" by (simp_all add: looping_def)
    from e have e2: "stepTimers ?st2 = []" by simp
    from looping_stepped[OF r(1,2) e2 r(3)] r Some True show ?thesis
      by (simp add: fire_def Let_def demo_nextStep_def demo_executeStep_Suc element_demoSequence_Suc)
  next
    case False
    have e: "stepTimers ?st1 = stepTimers st"
      using False by (simp add: stepTimers_def filter_remove1 remove1_idem)
    have k: "looping st'" if "stepTimers st' = stepTimers ?st1"
      "demo_currentStep st' = demo_currentStep ?st1"
      "demo_isRunning st' = demo_isRunning ?st1" "demo_isPaused st' = demo_isPaused ?st1" for st'
      using assms that e by (simp add: looping_def pendingStepTimers_def)
    show ?thesis
    proof (cases "cb t")
      case (FlowAction a)
      with Some show ?thesis
        by (auto simp add: fire_def Let_def executeAction_Suc intro!: k)
    next
      case AutoAdvance
      with Some show ?thesis
        by (auto simp add: fire_def Let_def pc_nextStep_Suc intro!: k)
    next
      case DemoNextStep
      with False show ?thesis by simp
    next
      case (DemoNavigate s)
      with Some show ?thesis
        by (auto simp add: fire_def Let_def navigateToSection_Suc intro!: k)
    qed
  qed
qed

lemma looping_fires:
  "looping st \<Longrightarrow> \<exists>st'. run (Suc d) (replicate n Fire) st = Some st' \<and> looping st'"
proof (induction n arbitrary: st)
  case 0
  then show ?case by simp
next
  case (Suc n)
  from looping_fire[OF Suc.prems, of d] obtain st1 where
    "fire (Suc d) st = Some st1" "looping st1" by blast
  with Suc.IH[of st1] show ?case by simp
qed

lemma looping_start: "\<exists>st. demo_start (Suc d) (initial t0) = Some st \<and> looping st"
proof -
  let ?s0 = "(initial t0)\<lparr>demo_isRunning := True, demo_isPaused := False, demo_currentStep := 0\<rparr>"
  have l: "demoSequence \<noteq> []" by (simp add: demoSequence_def)
  have "looping (stepped (demoSequence ! demo_currentStep ?s0) ?s0)"
    by (rule looping_stepped) (simp_all add: stepTimers_def l)
  then show ?thesis
    by (simp add: demo_start_def Let_def demo_executeStep_Suc element_def l)
qed

subsection \<open>The scheduler's loop\<close>

lemma setTimeout_fields [simp]:
  "pc_currentSection (snd (setTimeout c ms st)) = pc_currentSection st"
  "pc_currentStep (snd (setTimeout c ms st)) = pc_currentStep st"
  "autoAdvance (snd (setTimeout c ms st)) = autoAdvance st"
  "presentationState (snd (setTimeout c ms st)) = presentationState st"
  "demo_isRunning (snd (setTimeout c ms st)) = demo_isRunning st"
  "demo_isPaused (snd (setTimeout c ms st)) = demo_isPaused st"
  "demo_currentStep (snd (setTimeout c ms st)) = demo_currentStep st"
  "stepTimeout (snd (setTimeout c ms st)) = stepTimeout st"
  "now (snd (setTimeout c ms st)) = now st"
  "fired (snd (setTimeout c ms st)) = fired st"
  "nextTimer (snd (setTimeout c ms st)) = Suc (nextTimer st)"
  "timers (snd (setTimeout c ms st)) = timers st @ [\<lparr>tid = nextTimer st, due = now st + ms, cb = c\<rparr>]"
  by (simp_all add: setTimeout_def)



lemma forEachAction_delay:
  assumes "truthy (a_delay a)"
  shows "forEachAction nav (a # rest) st =
         forEachAction nav rest (snd (setTimeout (FlowAction a) (the (a_delay a)) st))"
  using assms by simp

subsection \<open>The timers of each section\<close>

lemma enteredTimers_valet:
  "enteredTimers ''valet'' st =
     [\<lparr>tid = nextTimer st, due = now st + 2000,
       cb = FlowAction \<lparr>a_type = ''showFirefighter'', a_target = [], a_delay = Some 2000\<rparr>\<rparr>,
      \<lparr>tid = Suc (nextTimer st), due = now st + 4000,
       cb = FlowAction \<lparr>a_type = ''demonstrateProblemSolving'', a_target = [], a_delay = Some 4000\<rparr>\<rparr>,
      \<lparr>tid = Suc (Suc (nextTimer st)), due = now st + 6000,
       cb = FlowAction \<lparr>a_type = ''showTrainingSolutions'', a_target = [], a_delay = Some 6000\<rparr>\<rparr>,
      \<lparr>tid = Suc (Suc (Suc (nextTimer st))), due = now st + 8000,
       cb = FlowAction \<lparr>a_type = ''animatePaperToBinder'', a_target = [], a_delay = Some 8000\<rparr>\<rparr>]
     @ (if autoAdvance st
        then [\<lparr>tid = nextTimer st + 4, due = now st + 90000, cb = AutoAdvance\<rparr>] else [])"
  by (simp add: enteredTimers_def findIndex_flowSteps autoTimer_def flowSteps_def)

lemma enteredTimers_manager:
  "enteredTimers ''manager'' st =
     [\<lparr>tid = nextTimer st, due = now st + 2000,
       cb = FlowAction \<lparr>a_type = ''showWatchtower'', a_target = [], a_delay = Some 2000\<rparr>\<rparr>,
      \<lparr>tid = Suc (nextTimer st), due = now st + 4000,
       cb = FlowAction \<lparr>a_type = ''openBinder'', a_target = [], a_delay = Some 4000\<rparr>\<rparr>,
      \<lparr>tid = Suc (Suc (nextTimer st)), due = now st + 6000,
       cb = FlowAction \<lparr>a_type = ''showProcesses'', a_target = [], a_delay = Some 6000\<rparr>\<rparr>,
      \<lparr>tid = Suc (Suc (Suc (nextTimer st))), due = now st + 8000,
       cb = FlowAction \<lparr>a_type = ''demonstrateOversight'', a_target = [], a_delay = Some 8000\<rparr>\<rparr>]
     @ (if autoAdvance st
        then [\<lparr>tid = nextTimer st + 4, due = now st + 90000, cb = AutoAdvance\<rparr>] else [])"
  by (simp add: enteredTimers_def findIndex_flowSteps autoTimer_def flowSteps_def)

subsection \<open>The presentation state under every operation\<close>

lemma clearTimeout_fields [simp]:
  "ace_currentSection (clearTimeout h st) = ace_currentSection st"
  "pc_currentSection (clearTimeout h st) = pc_currentSection st"
  "pc_currentStep (clearTimeout h st) = pc_currentStep st"
  "autoAdvance (clearTimeout h st) = autoAdvance st"
  "presentationState (clearTimeout h st) = presentationState st"
  "demo_isRunning (clearTimeout h st) = demo_isRunning st"
  "demo_isPaused (clearTimeout h st) = demo_isPaused st"
  "demo_currentStep (clearTimeout h st) = demo_currentStep st"
  "stepTimeout (clearTimeout h st) = stepTimeout st"
  "now (clearTimeout h st) = now st"
  "nextTimer (clearTimeout h st) = nextTimer st"
  "fired (clearTimeout h st) = fired st"
  "trace (clearTimeout h st) = trace st"
  by (simp_all add: clearTimeout_def)

lemma presentationState_demo [simp]:
  "presentationState (demo_stop st) = presentationState st"
  "presentationState (demo_pause st) = presentationState st"
  by (simp_all add: demo_stop_def demo_pause_def Let_def split: option.split)

lemma show_acted [simp]:
  "isPlaying (presentationState (acted act st)) = isPlaying (presentationState st)"
  "totalDuration (presentationState (acted act st)) = totalDuration (presentationState st)"
  by (cases act; simp add: acted_def)+

lemma show_stepped [simp]:
  "isPlaying (presentationState (stepped step st)) = isPlaying (presentationState st)"
  "totalDuration (presentationState (stepped step st)) = totalDuration (presentationState st)"
  by (simp_all add: stepped_def Let_def split: prod.split)
     (simp_all add: setTimeout_def)

text \<open>On a step of the static flow, \<open>executeFlowStep\<close> returns normally from any state.\<close>

lemma executeFlowStep_flow:
  assumes "step \<in> set flowSteps"
  shows "executeFlowStep (navigateToSection (Suc d)) step st =
         Some (Normal (let st3 = scheduled (tl (fs_actions step)) (navigated (fs_section step) st)
                       in if autoAdvance st3
                          then snd (setTimeout AutoAdvance (fs_duration step) st3) else st3))"
proof -
  from flowSteps_shape[OF assms] obtain
    a: "fs_actions step =
          \<lparr>a_type = ''showSection'', a_target = fs_section step, a_delay = None\<rparr> # tl (fs_actions step)"
    and b: "\<forall>a\<in>set (tl (fs_actions step)). truthy (a_delay a)" by blast
  have "forEachAction (navigateToSection (Suc d)) (fs_actions step) st =
          Some (Normal (scheduled (tl (fs_actions step)) (navigated (fs_section step) st)))"
    apply (subst a)
    apply (simp add: truthy_def executeAction_Suc forEachAction_delayed[OF b])
    done
  then show ?thesis by (simp add: executeFlowStep_def Let_def)
qed

lemma element_flowSteps_mem: "element flowSteps i = Some step \<Longrightarrow> step \<in> set flowSteps"
  by (auto simp: element_def split: if_splits)

lemma pc_play_show:
  "\<exists>st'. result (pc_play (navigateToSection (Suc d)) st) = Some st'
         \<and> totalDuration (presentationState st') = totalDuration (presentationState st)"
proof (cases "isPlaying (presentationState st)")
  case True
  then show ?thesis by (simp add: pc_play_def result_def)
next
  case False
  show ?thesis
  proof (cases "element flowSteps (int (pc_currentStep st))")
    case None
    with False show ?thesis
      by (simp add: pc_play_def result_def Let_def enableAutoAdvance_def)
  next
    case (Some step)
    from executeFlowStep_flow[OF element_flowSteps_mem[OF Some]] False Some show ?thesis
      by (simp add: pc_play_def result_def Let_def enableAutoAdvance_def)
  qed
qed

lemma fire_show:
  "\<exists>st'. fire (Suc d) st = Some st'
         \<and> totalDuration (presentationState st') = totalDuration (presentationState st)
         \<and> isPlaying (presentationState st') = isPlaying (presentationState st)"
proof (cases "earliest (timers st)")
  case None
  then show ?thesis by (simp add: fire_def)
next
  case (Some t)
  show ?thesis
  proof (cases "cb t")
    case (FlowAction a)
    with Some show ?thesis by (simp add: fire_def Let_def executeAction_Suc)
  next
    case AutoAdvance
    with Some show ?thesis by (simp add: fire_def Let_def pc_nextStep_Suc)
  next
    case DemoNextStep
    with Some show ?thesis
      by (simp add: fire_def Let_def demo_nextStep_def demo_executeStep_Suc split: option.split)
  next
    case (DemoNavigate s)
    with Some show ?thesis by (simp add: fire_def Let_def navigateToSection_Suc)
  qed
qed

lemma apply_op_totalDuration:
  "\<exists>st'. apply_op (Suc d) x st = Some st'
         \<and> totalDuration (presentationState st') = totalDuration (presentationState st)"
proof (cases x)
  case Play
  with pc_play_show[of d st] show ?thesis by simp
next
  case Fire
  with fire_show[of d st] show ?thesis by auto
qed (simp_all add: navigateToSection_Suc nextSection_next previousSection_previous
      pc_pause_def pc_stop_def disableAutoAdvance_def pc_reset_def pc_showSection_def
      pc_nextStep_Suc pc_previousStep_def pc_gotoStep_def handleUserInteraction_def
      demo_start_def demo_resume_def demo_skipToStep_def demo_executeStep_Suc Let_def
      split: option.split)

lemma run_totalDuration:
  "\<exists>st'. run (Suc d) ops st = Some st'
         \<and> totalDuration (presentationState st') = totalDuration (presentationState st)"
proof (induction ops arbitrary: st)
  case Nil
  then show ?case by simp
next
  case (Cons x ops)
  from apply_op_totalDuration[of d x st] obtain st1 where
    "apply_op (Suc d) x st = Some st1"
    "totalDuration (presentationState st1) = totalDuration (presentationState st)" by blast
  with Cons[of st1] show ?case by simp
qed

subsection \<open>Playing the whole flow\<close>

lemma enteredTimers_chaos:
  "enteredTimers ''chaos'' st =
     [\<lparr>tid = nextTimer st, due = now st + 2000,
       cb = FlowAction \<lparr>a_type = ''highlight3DPapers'', a_target = [], a_delay = Some 2000\<rparr>\<rparr>,
      \<lparr>tid = Suc (nextTimer st), due = now st + 4000,
       cb = FlowAction \<lparr>a_type = ''showProblemCount'', a_target = [], a_delay = Some 4000\<rparr>\<rparr>,
      \<lparr>tid = Suc (Suc (nextTimer st)), due = now st + 6000,
       cb = FlowAction \<lparr>a_type = ''emphasizeCosts'', a_target = [], a_delay = Some 6000\<rparr>\<rparr>]
     @ (if autoAdvance st
        then [\<lparr>tid = nextTimer st + 3, due = now st + 60000, cb = AutoAdvance\<rparr>] else [])"
  by (simp add: enteredTimers_def findIndex_flowSteps autoTimer_def flowSteps_def)

lemma enteredTimers_executive:
  "enteredTimers ''executive'' st =
     [\<lparr>tid = nextTimer st, due = now st + 2000,
       cb = FlowAction \<lparr>a_type = ''showPlane'', a_target = [], a_delay = Some 2000\<rparr>\<rparr>,
      \<lparr>tid = Suc (nextTimer st), due = now st + 4000,
       cb = FlowAction \<lparr>a_type = ''displayKPIs'', a_target = [], a_delay = Some 4000\<rparr>\<rparr>,
      \<lparr>tid = Suc (Suc (nextTimer st)), due = now st + 6000,
       cb = FlowAction \<lparr>a_type = ''showROICalculator'', a_target = [], a_delay = Some 6000\<rparr>\<rparr>,
      \<lparr>tid = Suc (Suc (Suc (nextTimer st))), due = now st + 8000,
       cb = FlowAction \<lparr>a_type = ''demonstrateROI'', a_target = [], a_delay = Some 8000\<rparr>\<rparr>,
      \<lparr>tid = Suc (Suc (Suc (Suc (nextTimer st)))), due = now st + 10000,
       cb = FlowAction \<lparr>a_type = ''showPredictiveAnalytics'', a_target = [], a_delay = Some 10000\<rparr>\<rparr>]
     @ (if autoAdvance st
        then [\<lparr>tid = nextTimer st + 5, due = now st + 120000, cb = AutoAdvance\<rparr>] else [])"
  by (simp add: enteredTimers_def findIndex_flowSteps autoTimer_def flowSteps_def)

lemma enteredTimers_closing:
  "enteredTimers ''closing'' st =
     [\<lparr>tid = nextTimer st, due = now st + 2000,
       cb = FlowAction \<lparr>a_type = ''showTransformation'', a_target = [], a_delay = Some 2000\<rparr>\<rparr>,
      \<lparr>tid = Suc (nextTimer st), due = now st + 4000,
       cb = FlowAction \<lparr>a_type = ''highlightPilotProgram'', a_target = [], a_delay = Some 4000\<rparr>\<rparr>,
      \<lparr>tid = Suc (Suc (nextTimer st)), due = now st + 6000,
       cb = FlowAction \<lparr>a_type = ''showNextSteps'', a_target = [], a_delay = Some 6000\<rparr>\<rparr>,
      \<lparr>tid = Suc (Suc (Suc (nextTimer st))), due = now st + 8000,
       cb = FlowAction \<lparr>a_type = ''emphasizeCTA'', a_target = [], a_delay = Some 8000\<rparr>\<rparr>]
     @ (if autoAdvance st
        then [\<lparr>tid = nextTimer st + 4, due = now st + 60000, cb = AutoAdvance\<rparr>] else [])"
  by (simp add: enteredTimers_def findIndex_flowSteps autoTimer_def flowSteps_def)

lemma fs_section_nth:
  "fs_section (flowSteps ! 0) = ''chaos''"
  "fs_section (flowSteps ! Suc 0) = ''valet''"
  "fs_section (flowSteps ! 2) = ''manager''"
  "fs_section (flowSteps ! 3) = ''executive''"
  "fs_section (flowSteps ! 4) = ''closing''"
  "fs_section (flowSteps ! Suc (Suc 0)) = ''manager''"
  "fs_section (flowSteps ! Suc (Suc (Suc 0))) = ''executive''"
  "fs_section (flowSteps ! Suc (Suc (Suc (Suc 0)))) = ''closing''"
  "fs_section (flowSteps ! Suc 2) = ''executive''"
  "fs_section (flowSteps ! Suc 3) = ''closing''"
  "length flowSteps = 5"
  by (simp_all add: flowSteps_def)

lemma pc_currentStep_navigated:
  "pc_currentStep (navigated s st) =
     (if ace_currentSection st = s then pc_currentStep st
      else if findIndex (\<lambda>step. fs_section step = s) flowSteps \<noteq> -1
      then nat (findIndex (\<lambda>step. fs_section step = s) flowSteps) else pc_currentStep st)"
  by (simp add: navigated_def)

text \<open>\<open>play\<close> on a fresh page: the delayed actions of chaos and its auto-advance are scheduled.\<close>

lemma play_initial:
  "apply_op (Suc d) Play (initial t0) =
     Some (snd (setTimeout AutoAdvance 60000
             (scheduled (tl (fs_actions (flowSteps ! 0)))
               ((initial t0)\<lparr>presentationState :=
                    (presentationState (initial t0))\<lparr>isPlaying := True, isPaused := False,
                       startTime := Some (int t0)\<rparr>,
                  autoAdvance := True\<rparr>))))"
proof -
  have e: "element flowSteps 0 = Some (flowSteps ! 0)" by (simp add: element_def fs_section_nth)
  have m: "flowSteps ! 0 \<in> set flowSteps" by (simp add: flowSteps_def)
  have p: "\<not> isPlaying (presentationState (initial t0))"
    "currentTime (presentationState (initial t0)) = 0"
    by (simp_all add: initial_def init_def setupPresentationState_def constructed_def)
  have du: "fs_duration (flowSteps ! 0) = 60000" by (simp add: flowSteps_def)
  show ?thesis
    by (simp add: pc_play_def Let_def enableAutoAdvance_def e p executeFlowStep_flow[OF m]
          result_def fs_section_nth navigated_def du)
qed

lemma chaos_actions:
  "tl (fs_actions (flowSteps ! 0)) =
     [\<lparr>a_type = ''highlight3DPapers'', a_target = [], a_delay = Some 2000\<rparr>,
      \<lparr>a_type = ''showProblemCount'', a_target = [], a_delay = Some 4000\<rparr>,
      \<lparr>a_type = ''emphasizeCosts'', a_target = [], a_delay = Some 6000\<rparr>]"
  by (simp add: flowSteps_def)

lemma full_play:
  "\<exists>st. run (Suc d) [Play, Fire, Fire, Fire, Fire, Fire, Fire, Fire, Fire, Fire, Fire, Fire, Fire,
                      Fire, Fire, Fire, Fire, Fire, Fire, Fire, Fire, Fire, Fire, Fire, Fire, Fire]
           (initial 0) = Some st
        \<and> timers st = [] \<and> now st = 420000 \<and> ace_currentSection st = ''closing''
        \<and> pc_currentStep st = 4 \<and> isPlaying (presentationState st)
        \<and> length (fired st) = 25
        \<and> trace st =
            [Effect ''highlight3DPapers'', Raised ''showProblemCount'', Effect ''emphasizeCosts'',
             SectionChanged ''valet'' ''valet'', Effect ''showFirefighter'',
             Effect ''demonstrateProblemSolving'', Effect ''showTrainingSolutions'',
             Effect ''animatePaperToBinder'',
             SectionChanged ''manager'' ''manager'', Effect ''showWatchtower'',
             Effect ''openBinder'', Effect ''showProcesses'', Effect ''demonstrateOversight'',
             SectionChanged ''executive'' ''executive'', Effect ''showPlane'',
             Effect ''displayKPIs'', Effect ''showROICalculator'', Effect ''demonstrateROI'',
             Effect ''showPredictiveAnalytics'',
             SectionChanged ''closing'' ''closing'', Effect ''showTransformation'',
             Effect ''highlightPilotProgram'', Effect ''showNextSteps'', Effect ''emphasizeCTA'']"
  unfolding run.simps play_initial option.case
  by (simp add: fire_def executeAction_Suc pc_nextStep_Suc knownActions_def Let_def
        navigated_def fs_section_nth findIndex_flowSteps chaos_actions
        enteredTimers_valet enteredTimers_manager enteredTimers_executive enteredTimers_closing)


lemma fires_isPlaying:
  "\<exists>st'. run (Suc d) (replicate n Fire) st = Some st'
         \<and> isPlaying (presentationState st') = isPlaying (presentationState st)"
proof (induction n arbitrary: st)
  case 0
  then show ?case by simp
next
  case (Suc n)
  from fire_show[of d st] obtain st1 where
    "fire (Suc d) st = Some st1"
    "isPlaying (presentationState st1) = isPlaying (presentationState st)" by blast
  with Suc[of st1] show ?case by simp
qed

text \<open>An auto-advance timer outlives the step that registered it.\<close>

lemma stale_auto_advance:
  "\<exists>st. run (Suc d) [Play, Elapse 500, NavigateTo ''manager'',
                      Fire, Fire, Fire, Fire, Fire, Fire, Fire, Fire] (initial 0) = Some st
        \<and> now st = 60000 \<and> ace_currentSection st = ''executive''
        \<and> trace st =
            [SectionChanged ''manager'' ''manager'', Effect ''highlight3DPapers'',
             Effect ''showWatchtower'', Raised ''showProblemCount'', Effect ''openBinder'',
             Effect ''emphasizeCosts'', Effect ''showProcesses'', Effect ''demonstrateOversight'',
             SectionChanged ''executive'' ''executive'']"
  unfolding run.simps play_initial option.case
  by (simp add: fire_def executeAction_Suc pc_nextStep_Suc knownActions_def Let_def
        navigateToSection_Suc navigated_def fs_section_nth findIndex_flowSteps chaos_actions
        enteredTimers_valet enteredTimers_manager enteredTimers_executive enteredTimers_closing)

section \<open>Claims about navigation\<close>

text \<open>
  C4. A call \<open>navigateTo(target)\<close> with a target other than the current section emits
  one section-changed signal. The claim wants it to carry the section that was current
  before the call as \<open>previousSection\<close>. The code builds the event after it has stored the
  target in \<open>this.currentSection\<close>, so the signal carries the target in both fields: the
  call returns, the one event it adds is \<open>SectionChanged target target\<close>, and no event
  with the section that was left is added.
\<close>

theorem C4_previousSection_is_the_target:
  assumes "ace_currentSection st \<noteq> target"
  shows "\<exists>st'. navigateToSection (Suc d) target st = Some st'
           \<and> trace st' = trace st @ [SectionChanged target target]
           \<and> SectionChanged target (ace_currentSection st) \<notin> set (drop (length (trace st)) (trace st'))"
  using assms by (simp add: navigateToSection_Suc navigated_def)

theorem C4_previousSection_is_the_target_witness:
  "ace_currentSection (initial 0) \<noteq> ''valet''
   \<and> (\<exists>st'. navigateToSection (Suc 0) ''valet'' (initial 0) = Some st'
           \<and> trace st' = trace (initial 0) @ [SectionChanged ''valet'' ''valet'']
           \<and> SectionChanged ''valet'' (ace_currentSection (initial 0))
                \<notin> set (drop (length (trace (initial 0))) (trace st')))"
proof -
  have h: "ace_currentSection (initial 0) \<noteq> ''valet''" by simp
  from h C4_previousSection_is_the_target[OF h, of 0] show ?thesis by blast
qed



text \<open>
  C5. The claim: next and previous wrap around the five sections. It holds for
  \<open>nextSection\<close> and \<open>previousSection\<close> of the application controller (the keyboard
  navigation): five times \<open>nextSection\<close> from any of the five sections comes back to it, and
  \<open>previousSection\<close> from chaos lands on closing. It does not hold for \<open>nextStep\<close> and
  \<open>previousStep\<close> of the PresentationController, which are guarded at both ends: at the
  last step \<open>nextStep\<close> does nothing, at step 0 \<open>previousStep\<close> does nothing.
\<close>

theorem C5_nextStep_does_not_wrap_counterexample:
  "map_option ace_currentSection
     (run 1 [NextStep, NextStep, NextStep, NextStep, NextStep] (initial 0)) = Some ''closing''
   \<and> map_option ace_currentSection (run 1 [PreviousStep] (initial 0)) = Some ''chaos''"
  by (simp add: initial_def init_def setupPresentationState_def constructed_def
        navigateToSection_Suc navigated_def entered_def handled_def scheduled_def
        findIndex_flowSteps updatePresentationState_def setTimeout_def logEvent_def
        pc_nextStep_def pc_previousStep_def pc_showSection_def Let_def flowSteps_def)

text \<open>
  C5 as the code has it: \<open>nextSection\<close> applied five times from any of the five sections
  returns to that section, and \<open>previousSection\<close> from chaos lands on closing; \<open>nextStep\<close>
  at the last step and \<open>previousStep\<close> at step 0 return without doing anything.
\<close>

theorem C5_nextSection_wraps_nextStep_stops:
  "(s \<in> set sections \<and> ace_currentSection st = s \<longrightarrow>
      map_option ace_currentSection
        (run (Suc d) [NextSection, NextSection, NextSection, NextSection, NextSection] st) = Some s)
   \<and> (ace_currentSection st = ''chaos'' \<longrightarrow>
      map_option ace_currentSection (previousSection (Suc d) st) = Some ''closing'')
   \<and> (pc_currentStep st = 4 \<longrightarrow> pc_nextStep nav st = Some st)
   \<and> (pc_currentStep st = 0 \<longrightarrow> pc_previousStep nav st = Some st)"
proof -
  let ?five = "map_option ace_currentSection
        (run (Suc d) [NextSection, NextSection, NextSection, NextSection, NextSection] st)"
  have a: "s \<in> set sections \<and> ace_currentSection st = s \<longrightarrow> ?five = Some s"
  proof (intro impI, elim conjE)
    assume mem: "s \<in> set sections" and cur: "ace_currentSection st = s"
    have c1: "?five = Some s" if "s = ''chaos''"
      using cur unfolding that by (simp add: nextSection_next)
    have c2: "?five = Some s" if "s = ''valet''"
      using cur unfolding that by (simp add: nextSection_next)
    have c3: "?five = Some s" if "s = ''manager''"
      using cur unfolding that by (simp add: nextSection_next)
    have c4: "?five = Some s" if "s = ''executive''"
      using cur unfolding that by (simp add: nextSection_next)
    have c5: "?five = Some s" if "s = ''closing''"
      using cur unfolding that by (simp add: nextSection_next)
    from mem have "s = ''chaos'' \<or> s = ''valet'' \<or> s = ''manager'' \<or> s = ''executive''
        \<or> s = ''closing''"
      by (simp add: sections_def)
    then show "?five = Some s"
    proof (elim disjE)
      assume "s = ''chaos''" then show ?thesis by (rule c1)
    next
      assume "s = ''valet''" then show ?thesis by (rule c2)
    next
      assume "s = ''manager''" then show ?thesis by (rule c3)
    next
      assume "s = ''executive''" then show ?thesis by (rule c4)
    next
      assume "s = ''closing''" then show ?thesis by (rule c5)
    qed
  qed
  have b: "ace_currentSection st = ''chaos'' \<longrightarrow>
      map_option ace_currentSection (previousSection (Suc d) st) = Some ''closing''"
    by (simp add: previousSection_previous)
  have c: "pc_currentStep st = 4 \<longrightarrow> pc_nextStep nav st = Some st"
    by (simp add: pc_nextStep_def flowSteps_def)
  have e: "pc_currentStep st = 0 \<longrightarrow> pc_previousStep nav st = Some st"
    by (simp add: pc_previousStep_def)
  from a b c e show ?thesis by (intro conjI)
qed

theorem C5_nextSection_wraps_nextStep_stops_witness:
  "''closing'' \<in> set sections
   \<and> ace_currentSection (navigated ''closing'' (initial 0)) = ''closing''
   \<and> map_option ace_currentSection
        (run (Suc 0) [NextSection, NextSection, NextSection, NextSection, NextSection]
           (navigated ''closing'' (initial 0))) = Some ''closing''
   \<and> pc_currentStep (navigated ''closing'' (initial 0)) = 4
   \<and> pc_nextStep (navigateToSection (Suc 0)) (navigated ''closing'' (initial 0))
       = Some (navigated ''closing'' (initial 0))
   \<and> ace_currentSection (initial 0) = ''chaos''
   \<and> map_option ace_currentSection (previousSection (Suc 0) (initial 0)) = Some ''closing''
   \<and> pc_currentStep (initial 0) = 0
   \<and> pc_previousStep (navigateToSection (Suc 0)) (initial 0) = Some (initial 0)"
proof -
  have m: "''closing'' \<in> set sections" by (simp add: sections_def)
  have a: "ace_currentSection (navigated ''closing'' (initial 0)) = ''closing''" by simp
  have p: "pc_currentStep (navigated ''closing'' (initial 0)) = 4"
    by (simp add: navigated_def entered_def handled_def findIndex_flowSteps Let_def
          updatePresentationState_def setTimeout_def scheduled_def logEvent_def flowSteps_def)
  have c: "ace_currentSection (initial 0) = ''chaos''" by simp
  have z: "pc_currentStep (initial 0) = 0" by simp
  note t1 = C5_nextSection_wraps_nextStep_stops[of "''closing''" "navigated ''closing'' (initial 0)" 0
      "navigateToSection (Suc 0)"]
  note t2 = C5_nextSection_wraps_nextStep_stops[of "''chaos''" "initial 0" 0 "navigateToSection (Suc 0)"]
  from t1 m a have r1: "map_option ace_currentSection
        (run (Suc 0) [NextSection, NextSection, NextSection, NextSection, NextSection]
           (navigated ''closing'' (initial 0))) = Some ''closing''" by (elim conjE) (rule mp, assumption, intro conjI)
  from t1 p have r2: "pc_nextStep (navigateToSection (Suc 0)) (navigated ''closing'' (initial 0))
       = Some (navigated ''closing'' (initial 0))" by (elim conjE) (rule mp)
  from t2 c have r3: "map_option ace_currentSection (previousSection (Suc 0) (initial 0)) = Some ''closing''"
    by (elim conjE) (rule mp)
  from t2 z have r4: "pc_previousStep (navigateToSection (Suc 0)) (initial 0) = Some (initial 0)"
    by (elim conjE) (rule mp)
  from m a r1 p r2 c r3 z r4 show ?thesis by (intro conjI)
qed

section \<open>Claims about the demo driver\<close>





text \<open>
  C2. The claim: after \<open>start()\<close>, \<open>pause()\<close> while step k's timer is pending and
  \<open>resume()\<close>, the action of step k has run exactly once, and step k+1 begins a full
  post-delay after the resume. \<open>resume\<close> calls \<open>executeStep\<close>, which runs the action of
  the current step again before it registers the timer: paused in step 2 and resumed, the
  action of step 2 has run twice.
\<close>

theorem C2_resume_runs_the_action_again_counterexample:
  "map_option (actionCount 2)
     (run 1 [DemoStart, Fire, Fire, DemoPause, Elapse 1000, DemoResume] (initial 0)) = Some 2"
  by (simp add: initial_def init_def setupPresentationState_def constructed_def
        demo_start_def demo_executeStep_Suc demo_nextStep_def demo_pause_def demo_resume_def
        fire_def element_def demoSequence_def stepped_def acted_def navigated_def
        setTimeout_def clearTimeout_def logEvent_def actionCount_def Let_def)

text \<open>
  C2 as the code has it: on a running, unpaused driver at step k, \<open>pause()\<close> followed, any
  time \<open>n\<close> later, by \<open>resume()\<close> runs the action of step k once more, and leaves exactly
  one step timer pending, due one full post-delay of step k after the resume; step k+1
  can begin only when that timer fires.
\<close>

theorem C2_resume_reruns_action_and_rearms:
  assumes "demo_inv st" "demo_isRunning st" "\<not> demo_isPaused st"
    "demo_currentStep st = k" "k < length demoSequence"
  shows "\<exists>st' h. demo_resume (Suc d) ((demo_pause st)\<lparr>now := now st + n\<rparr>) = Some st'
           \<and> actionCount k st' = actionCount k st + 1
           \<and> stepTimers st' =
                [\<lparr>tid = h, due = now st + n + ds_duration (demoSequence ! k), cb = DemoNextStep\<rparr>]
           \<and> demo_isRunning st' \<and> \<not> demo_isPaused st'"
proof -
  note p = demo_pause_running[OF assms(1,2)]
  let ?st2 = "(demo_pause st)\<lparr>now := now st + n, demo_isPaused := False\<rparr>"
  let ?step = "demoSequence ! k"
  have r: "demo_resume (Suc d) ((demo_pause st)\<lparr>now := now st + n\<rparr>) = Some (stepped ?step ?st2)"
    using p assms(4,5)
    by (simp add: demo_resume_def demo_executeStep_Suc element_demoSequence)
  have e: "stepTimers ?st2 = []" using p(1) by (simp add: stepTimers_def)
  have c: "actionCount k (stepped ?step ?st2) = actionCount k st + 1"
    using p assms(4) by (simp add: actionCount_stepped) (simp add: actionCount_def)
  from stepTimeout_stepped[of ?step ?st2] obtain h where
    h: "stepTimeout (stepped ?step ?st2) = Some h" by auto
  have t: "stepTimers (stepped ?step ?st2) =
             [\<lparr>tid = h, due = now st + n + ds_duration ?step, cb = DemoNextStep\<rparr>]"
    using stepTimers_stepped[of ?step ?st2] e h by simp
  from r c t p(2) show ?thesis by simp
qed


theorem C2_resume_reruns_action_and_rearms_witness:
  "\<exists>st. demo_start (Suc 0) (initial 0) = Some st
     \<and> demo_inv st \<and> demo_isRunning st \<and> \<not> demo_isPaused st
     \<and> demo_currentStep st = 0 \<and> 0 < length demoSequence \<and> actionCount 0 st = 1
     \<and> (\<exists>st' h. demo_resume (Suc 0) ((demo_pause st)\<lparr>now := now st + 1000\<rparr>) = Some st'
           \<and> actionCount 0 st' = 2
           \<and> stepTimers st' = [\<lparr>tid = h, due = 5000, cb = DemoNextStep\<rparr>])"
proof -
  from demo_start_restarts[OF demo_inv_initial, of 0 0] obtain st where
    st: "demo_start (Suc 0) (initial 0) = Some st" "demo_inv st" "demo_isRunning st"
      "\<not> demo_isPaused st" "demo_currentStep st = 0" by auto
  have l: "0 < length demoSequence" by (simp add: demoSequence_def)
  have d: "ds_duration (demoSequence ! 0) = 4000" by (simp add: demoSequence_def)
  from st(1) have f: "st = stepped (demoSequence ! 0)
        ((initial 0)\<lparr>demo_isRunning := True, demo_isPaused := False, demo_currentStep := 0\<rparr>)"
    by (simp add: demo_start_def Let_def demo_executeStep_Suc element_def demoSequence_def)
  have c: "actionCount 0 st = 1" unfolding f by (simp add: actionCount_stepped) (simp add: actionCount_def)
  have n: "now st = 0" unfolding f by (simp add: stepped_def Let_def setTimeout_def split: prod.split)
  from C2_resume_reruns_action_and_rearms[OF st(2,3,4,5) l, of 0 1000] c d n st l show ?thesis
    by auto
qed

text \<open>
  C3. The claim: started and left alone, the demo driver ends with \<open>isRunning\<close> false,
  no step timer pending and the presentation on chaos, because its last step stops it.
  The action of the last step calls \<open>this.reset()\<close>, which puts the index back to 0 and
  navigates to chaos but does not stop; \<open>nextStep\<close> then moves on to step 1. So the driver
  never stops: after \<open>start()\<close> and any number of timer firings it is still running with a
  step timer pending. A running driver at the last step comes out of \<open>executeStep\<close>
  running, at index 0, with its next timer registered.
\<close>

theorem C3_demo_never_stops:
  "(\<exists>st. run (Suc d) (DemoStart # replicate n Fire) (initial t0) = Some st
         \<and> demo_isRunning st \<and> pendingStepTimers st = 1)
   \<and> (\<exists>st. demo_executeStep (Suc d)
               ((initial t0)\<lparr>demo_isRunning := True, demo_currentStep := 9\<rparr>) = Some st
         \<and> demo_isRunning st \<and> demo_currentStep st = 0 \<and> pendingStepTimers st = 1
         \<and> trace st = [DemoAction 9])"
proof -
  from looping_start[of d t0] obtain s1 where
    s1: "demo_start (Suc d) (initial t0) = Some s1" "looping s1" by blast
  from looping_fires[OF s1(2), of d n] obtain s2 where
    s2: "run (Suc d) (replicate n Fire) s1 = Some s2" "looping s2" by blast
  from s1 s2 have a: "\<exists>st. run (Suc d) (DemoStart # replicate n Fire) (initial t0) = Some st
         \<and> demo_isRunning st \<and> pendingStepTimers st = 1"
    by (simp add: looping_def)
  have b: "\<exists>st. demo_executeStep (Suc d)
               ((initial t0)\<lparr>demo_isRunning := True, demo_currentStep := 9\<rparr>) = Some st
         \<and> demo_isRunning st \<and> demo_currentStep st = 0 \<and> pendingStepTimers st = 1
         \<and> trace st = [DemoAction 9]"
    by (simp add: demo_executeStep_Suc element_def demoSequence_def stepped_def acted_def
          navigated_def setTimeout_def pendingStepTimers_def stepTimers_def Let_def)
  from a b show ?thesis by (rule conjI)
qed

theorem C3_demo_never_stops_witness:
  "(\<exists>st. run (Suc 0) (DemoStart # replicate 40 Fire) (initial 0) = Some st
         \<and> demo_isRunning st \<and> pendingStepTimers st = 1)
   \<and> (\<exists>st. demo_executeStep (Suc 0)
               ((initial 0)\<lparr>demo_isRunning := True, demo_currentStep := 9\<rparr>) = Some st
         \<and> demo_isRunning st \<and> demo_currentStep st = 0 \<and> pendingStepTimers st = 1
         \<and> trace st = [DemoAction 9])"
  by (rule C3_demo_never_stops)

section \<open>Claims about the Flow Step Scheduler\<close>




text \<open>
  C1. The claim: once \<open>navigateTo\<close> has left a section, none of that section's
  remaining action timers and not its auto-advance timer fires its effect. The code keeps
  no handle of the timers that \<open>executeFlowStep\<close> registers and never cancels one: every
  timer that is pending before a navigation is pending after it. In the scenario of the
  specification, entering valet, leaving it for manager half a second later and letting
  the timers fire, all four delayed actions of valet run while manager is the current
  section, \<open>animatePaperToBinder\<close> last. And after \<open>play()\<close> on chaos and a navigation to
  manager half a second later, the auto-advance timer of chaos fires at 60000 ms and moves
  the presentation on to executive.
\<close>

theorem C1_navigation_cancels_no_timer:
  "(\<exists>st' new. navigateToSection (Suc d) target st = Some st' \<and> timers st' = timers st @ new)
   \<and> (\<exists>st. run (Suc d) [NavigateTo ''valet'', Elapse 500, NavigateTo ''manager'',
                         Fire, Fire, Fire, Fire, Fire, Fire, Fire] (initial 0) = Some st
          \<and> ace_currentSection st = ''manager''
          \<and> trace st =
              [SectionChanged ''valet'' ''valet'', SectionChanged ''manager'' ''manager'',
               Effect ''showFirefighter'', Effect ''showWatchtower'',
               Effect ''demonstrateProblemSolving'', Effect ''openBinder'',
               Effect ''showTrainingSolutions'', Effect ''showProcesses'',
               Effect ''animatePaperToBinder''])
   \<and> (\<exists>st. run (Suc d) [Play, Elapse 500, NavigateTo ''manager'',
                         Fire, Fire, Fire, Fire, Fire, Fire, Fire, Fire] (initial 0) = Some st
          \<and> now st = 60000 \<and> ace_currentSection st = ''executive'')"
proof -
  have 1: "\<exists>st' new. navigateToSection (Suc d) target st = Some st' \<and> timers st' = timers st @ new"
    by (simp add: navigateToSection_Suc timers_navigated)
  have 2: "\<exists>st. run (Suc d) [NavigateTo ''valet'', Elapse 500, NavigateTo ''manager'',
                         Fire, Fire, Fire, Fire, Fire, Fire, Fire] (initial 0) = Some st
          \<and> ace_currentSection st = ''manager''
          \<and> trace st =
              [SectionChanged ''valet'' ''valet'', SectionChanged ''manager'' ''manager'',
               Effect ''showFirefighter'', Effect ''showWatchtower'',
               Effect ''demonstrateProblemSolving'', Effect ''openBinder'',
               Effect ''showTrainingSolutions'', Effect ''showProcesses'',
               Effect ''animatePaperToBinder'']"
    by (simp add: navigateToSection_Suc navigated_def fire_def executeAction_Suc knownActions_def
          enteredTimers_valet enteredTimers_manager Let_def)
  from stale_auto_advance[of d]
  have 3: "\<exists>st. run (Suc d) [Play, Elapse 500, NavigateTo ''manager'',
                         Fire, Fire, Fire, Fire, Fire, Fire, Fire, Fire] (initial 0) = Some st
          \<and> now st = 60000 \<and> ace_currentSection st = ''executive''"
    by (elim exE conjE) (intro exI conjI)
  from 1 2 3 show ?thesis by (intro conjI)
qed

theorem C1_navigation_cancels_no_timer_witness:
  "\<exists>st' new. navigateToSection (Suc 0) ''manager'' (navigated ''valet'' (initial 0)) = Some st'
      \<and> timers st' = timers (navigated ''valet'' (initial 0)) @ new"
  using C1_navigation_cancels_no_timer[of 0 "''manager''" "navigated ''valet'' (initial 0)"]
  by (elim conjE)

section \<open>Claims about the presentation state\<close>

text \<open>
  C8. After initialisation \<open>presentationState.totalDuration\<close> is the sum of the durations
  of the five flow steps, 60000 + 90000 + 90000 + 120000 + 60000 = 420000 ms, and no
  sequence of operations (navigation, play, pause, stop, reset, the step commands, the demo
  driver's commands, timers firing, time passing) changes it; every such sequence runs to
  its end.
\<close>

theorem C8_totalDuration_fixed:
  "totalDuration (presentationState (initial t0)) = sum_list (map fs_duration flowSteps)
   \<and> map fs_duration flowSteps = [60000, 90000, 90000, 120000, 60000]
   \<and> totalDuration (presentationState (initial t0)) = 420000
   \<and> (\<exists>st. run (Suc d) ops (initial t0) = Some st
          \<and> totalDuration (presentationState st) = 420000)"
proof -
  have a: "map fs_duration flowSteps = [60000, 90000, 90000, 120000, 60000]"
    by (simp add: flowSteps_def)
  have b: "totalDuration (presentationState (initial t0)) = 420000"
    by (simp add: initial_def init_def setupPresentationState_def flowSteps_def)
  have c: "totalDuration (presentationState (initial t0)) = sum_list (map fs_duration flowSteps)"
    unfolding a b by simp
  from run_totalDuration[of d ops "initial t0"] b
  have e: "\<exists>st. run (Suc d) ops (initial t0) = Some st
          \<and> totalDuration (presentationState st) = 420000" by simp
  from c a b e show ?thesis by (intro conjI)
qed

theorem C8_totalDuration_fixed_witness:
  "\<exists>st. run (Suc 0) [Play, NavigateTo ''valet'', Fire, Pause, Stop, DemoStart, Fire, Reset]
          (initial 0) = Some st
      \<and> totalDuration (presentationState st) = 420000"
  using C8_totalDuration_fixed[of 0 0
      "[Play, NavigateTo ''valet'', Fire, Pause, Stop, DemoStart, Fire, Reset]"]
  by (elim conjE)

text \<open>
  C6. The claim: \<open>play()\<close> at t = 0 from step 0, the auto-advance timers running
  through every flow step; then \<open>isPlaying\<close> becomes false exactly once after the last
  step's duration, and no \<open>next()\<close> goes past closing. After \<open>play()\<close> and all 25 timers
  (20 delayed actions, 5 auto-advances) the clock is at 420000 ms, nothing is pending, the
  presentation is on closing, and \<open>isPlaying\<close> is still true.
\<close>

theorem C6_isPlaying_still_true_counterexample:
  "map_option (isPlaying \<circ> presentationState)
     (run 1 [Play, Fire, Fire, Fire, Fire, Fire, Fire, Fire, Fire, Fire, Fire, Fire, Fire,
             Fire, Fire, Fire, Fire, Fire, Fire, Fire, Fire, Fire, Fire, Fire, Fire, Fire]
        (initial 0)) = Some True
   \<and> map_option timers
     (run 1 [Play, Fire, Fire, Fire, Fire, Fire, Fire, Fire, Fire, Fire, Fire, Fire, Fire,
             Fire, Fire, Fire, Fire, Fire, Fire, Fire, Fire, Fire, Fire, Fire, Fire, Fire]
        (initial 0)) = Some []
   \<and> map_option now
     (run 1 [Play, Fire, Fire, Fire, Fire, Fire, Fire, Fire, Fire, Fire, Fire, Fire, Fire,
             Fire, Fire, Fire, Fire, Fire, Fire, Fire, Fire, Fire, Fire, Fire, Fire, Fire]
        (initial 0)) = Some 420000"
proof -
  from full_play[of 0] obtain st where
    "run (Suc 0) [Play, Fire, Fire, Fire, Fire, Fire, Fire, Fire, Fire, Fire, Fire, Fire, Fire,
             Fire, Fire, Fire, Fire, Fire, Fire, Fire, Fire, Fire, Fire, Fire, Fire, Fire]
        (initial 0) = Some st"
    "timers st = []" "now st = 420000" "isPlaying (presentationState st)"
    by (elim exE conjE)
  then show ?thesis by (simp only: One_nat_def option.map comp_apply simp_thms)
qed

text \<open>
  C6 as the code has it: nothing but \<open>stop()\<close> (and \<open>reset()\<close>, which calls it) clears
  \<open>isPlaying\<close>. After \<open>play()\<close> on a fresh page and any number of timer firings
  \<open>isPlaying\<close> is true. When all 25 timers of the five steps have fired, at 420000 ms, no
  timer is pending and the presentation is on closing at step 4, entered once: the last
  auto-advance called \<open>nextStep\<close>, which does nothing at the last step.
\<close>

theorem C6_play_runs_through_without_overshoot:
  "(\<exists>st. run (Suc d) (Play # replicate n Fire) (initial t0) = Some st
        \<and> isPlaying (presentationState st))
   \<and> (\<exists>st. run (Suc d) [Play, Fire, Fire, Fire, Fire, Fire, Fire, Fire, Fire, Fire, Fire, Fire,
                        Fire, Fire, Fire, Fire, Fire, Fire, Fire, Fire, Fire, Fire, Fire, Fire,
                        Fire, Fire] (initial 0) = Some st
        \<and> timers st = [] \<and> now st = 420000 \<and> ace_currentSection st = ''closing''
        \<and> pc_currentStep st = 4 \<and> isPlaying (presentationState st)
        \<and> count_list (trace st) (SectionChanged ''closing'' ''closing'') = 1)"
proof -
  let ?p = "snd (setTimeout AutoAdvance 60000
             (scheduled (tl (fs_actions (flowSteps ! 0)))
               ((initial t0)\<lparr>presentationState :=
                    (presentationState (initial t0))\<lparr>isPlaying := True, isPaused := False,
                       startTime := Some (int t0)\<rparr>,
                  autoAdvance := True\<rparr>)))"
  from fires_isPlaying[of d n ?p] obtain st where
    "run (Suc d) (replicate n Fire) ?p = Some st"
    "isPlaying (presentationState st) = isPlaying (presentationState ?p)" by blast
  moreover have "run (Suc d) (Play # replicate n Fire) (initial t0)
      = run (Suc d) (replicate n Fire) ?p"
    by (simp only: run.simps play_initial option.case)
  ultimately have a: "\<exists>st. run (Suc d) (Play # replicate n Fire) (initial t0) = Some st
        \<and> isPlaying (presentationState st)"
    by simp
  from full_play[of d] obtain st where
    st: "run (Suc d) [Play, Fire, Fire, Fire, Fire, Fire, Fire, Fire, Fire, Fire, Fire, Fire,
                        Fire, Fire, Fire, Fire, Fire, Fire, Fire, Fire, Fire, Fire, Fire, Fire,
                        Fire, Fire] (initial 0) = Some st"
      "timers st = []" "now st = 420000" "ace_currentSection st = ''closing''"
      "pc_currentStep st = 4" "isPlaying (presentationState st)"
    and tr: "trace st =
            [Effect ''highlight3DPapers'', Raised ''showProblemCount'', Effect ''emphasizeCosts'',
             SectionChanged ''valet'' ''valet'', Effect ''showFirefighter'',
             Effect ''demonstrateProblemSolving'', Effect ''showTrainingSolutions'',
             Effect ''animatePaperToBinder'',
             SectionChanged ''manager'' ''manager'', Effect ''showWatchtower'',
             Effect ''openBinder'', Effect ''showProcesses'', Effect ''demonstrateOversight'',
             SectionChanged ''executive'' ''executive'', Effect ''showPlane'',
             Effect ''displayKPIs'', Effect ''showROICalculator'', Effect ''demonstrateROI'',
             Effect ''showPredictiveAnalytics'',
             SectionChanged ''closing'' ''closing'', Effect ''showTransformation'',
             Effect ''highlightPilotProgram'', Effect ''showNextSteps'', Effect ''emphasizeCTA'']"
    by (elim exE conjE)
  have c: "count_list (trace st) (SectionChanged ''closing'' ''closing'') = 1"
    unfolding tr by simp
  from st c have b: "\<exists>st. run (Suc d) [Play, Fire, Fire, Fire, Fire, Fire, Fire, Fire, Fire, Fire,
                        Fire, Fire, Fire, Fire, Fire, Fire, Fire, Fire, Fire, Fire, Fire, Fire,
                        Fire, Fire, Fire, Fire] (initial 0) = Some st
        \<and> timers st = [] \<and> now st = 420000 \<and> ace_currentSection st = ''closing''
        \<and> pc_currentStep st = 4 \<and> isPlaying (presentationState st)
        \<and> count_list (trace st) (SectionChanged ''closing'' ''closing'') = 1"
    by (intro exI[of _ st] conjI)
  from a b show ?thesis by (rule conjI)
qed

theorem C6_play_runs_through_without_overshoot_witness:
  "\<exists>st. run (Suc 0) (Play # replicate 30 Fire) (initial 0) = Some st
      \<and> isPlaying (presentationState st)"
  using C6_play_runs_through_without_overshoot[of 0 30 0]
  by (elim conjE)

end
